theory Spec2Isabelle
  imports Main "HOL-Library.Sublist"
begin

section \<open>The audit log (src/proxy/logger.go)\<close>

subsection \<open>Data\<close>

text \<open>
  Go strings and byte slices are byte sequences: \<open>string\<close> (a \<open>char list\<close>, one
  \<open>char\<close> per byte), so \<open>length\<close> is \<open>len\<close> and \<open>take n\<close> is \<open>b[:n]\<close>.
  A \<open>time.Time\<close> is an abstract instant (\<open>nat\<close>). A Go map is a HOL map; the nil
  map and the empty map are both \<open>Map.empty\<close>.
\<close>

text \<open>
  An \<open>io.ReadCloser\<close>: a stream that has not been read yet, the buffer that
  \<open>io.NopCloser(bytes.NewBuffer(b))\<close> puts in its place, or a stream whose read fails.
  The nil body is \<open>None\<close> in the enclosing record.
\<close>

datatype reader = Stream string | Buffered string | Broken

text \<open>The fields of \<open>http.Request\<close> and \<open>http.Response\<close> that the logger reads.\<close>

record Request =
  req_Method :: string
  req_Host :: string
  req_URL_Path :: string
  req_Header :: "string \<rightharpoonup> string list"
  req_Body :: "reader option"

record Response =
  resp_StatusCode :: int
  resp_Header :: "string \<rightharpoonup> string list"
  resp_Body :: "reader option"

record RequestLog =
  ID :: string
  Timestamp :: nat
  Method :: string
  Domain :: string
  Path :: string
  Headers :: "string \<rightharpoonup> string"
  Body :: string
  ResponseStatus :: int
  ResponseHeaders :: "string \<rightharpoonup> string"
  ResponseBody :: string
  PcapFile :: string

text \<open>
  The logger: the slice \<open>requests\<close>, the map \<open>requestIdx\<close>, and the bytes of the file
  \<open>requests.jsonl\<close> that \<open>logFile\<close> appends to. The mutex is not modelled: every
  operation below is one critical section, run to its end.
\<close>

record Logger =
  requests :: "RequestLog list"
  requestIdx :: "string \<rightharpoonup> nat"
  logFile :: string

text \<open>
  What one call of \<open>LogRequest\<close> takes from outside the program: the 16 bytes of
  \<open>uuid.New()\<close>, \<open>time.Now().Format("20060102_150405")\<close>, \<open>time.Now().UTC()\<close>, and
  whether \<open>logFile.Write\<close> succeeds.
\<close>

record env =
  uuid_New :: string
  now_Format :: string
  now_UTC :: nat
  write_ok :: bool

text \<open>
  \<open>json.Marshal\<close> and \<open>json.Unmarshal\<close> belong to the Go library: the operations
  take them as parameters, \<open>None\<close> being the error result.
\<close>

type_synonym marshal = "RequestLog \<Rightarrow> string option"
type_synonym unmarshal = "string \<Rightarrow> RequestLog option"

subsection \<open>Library functions behind the ids and the header keys\<close>

text \<open>
  \<open>UUID.String\<close> of the package \<open>google/uuid\<close>, for the 16 bytes of a UUID: the bytes
  in lower-case hexadecimal, with hyphens after the bytes 4, 6, 8 and 10.
\<close>

definition hex_digit :: "nat \<Rightarrow> char" where
  "hex_digit n = ''0123456789abcdef'' ! n"

definition hex_Encode :: "string \<Rightarrow> string" where
  "hex_Encode bytes =
     concat (map (\<lambda>b. [hex_digit (of_char b div 16), hex_digit (of_char b mod 16)]) bytes)"

definition UUID_String :: "string \<Rightarrow> string" where
  "UUID_String u =
     hex_Encode (take 4 u) @ ''-'' @ hex_Encode (take 2 (drop 4 u)) @ ''-'' @
     hex_Encode (take 2 (drop 6 u)) @ ''-'' @ hex_Encode (take 2 (drop 8 u)) @ ''-'' @
     hex_Encode (drop 10 u)"

text \<open>
  \<open>textproto.CanonicalMIMEHeaderKey\<close> of the Go library, the form in which \<open>net/http\<close>
  stores the name of every header it parses. A name that holds a byte which is not a
  header token byte is returned as it is; in any other name a letter is put in upper
  case at the start and after a hyphen, in lower case elsewhere. \<open>upper\<close> is the flag
  of the loop.
\<close>

definition is_lower :: "char \<Rightarrow> bool" where
  "is_lower c \<longleftrightarrow> (97::nat) \<le> of_char c \<and> of_char c \<le> (122::nat)"

definition is_upper :: "char \<Rightarrow> bool" where
  "is_upper c \<longleftrightarrow> (65::nat) \<le> of_char c \<and> of_char c \<le> (90::nat)"

definition to_lower :: "char \<Rightarrow> char" where
  "to_lower c = (if is_upper c then char_of (of_char c + (32::nat)) else c)"

definition to_upper :: "char \<Rightarrow> char" where
  "to_upper c = (if is_lower c then char_of (of_char c - (32::nat)) else c)"

definition canonical_byte :: "bool \<Rightarrow> char \<Rightarrow> char" where
  "canonical_byte upper c =
     (if upper \<and> is_lower c then to_upper c
      else if \<not> upper \<and> is_upper c then to_lower c
      else c)"

fun canonical_from :: "bool \<Rightarrow> string \<Rightarrow> string" where
  "canonical_from upper [] = []"
| "canonical_from upper (c # cs) =
     canonical_byte upper c # canonical_from (canonical_byte upper c = CHR ''-'') cs"

definition is_digit :: "char \<Rightarrow> bool" where
  "is_digit c \<longleftrightarrow> (48::nat) \<le> of_char c \<and> of_char c \<le> (57::nat)"

definition validHeaderFieldByte :: "char \<Rightarrow> bool" where
  "validHeaderFieldByte c \<longleftrightarrow>
     is_upper c \<or> is_lower c \<or> is_digit c \<or>
     c \<in> set [CHR ''!'', CHR ''#'', CHR ''$'', CHR ''%'', CHR ''&'', CHR 0x27, CHR ''*'', CHR ''+'',
                CHR ''-'', CHR ''.'', CHR ''^'', CHR ''_'', CHR 0x60, CHR ''|'', CHR ''~'']"

definition CanonicalMIMEHeaderKey :: "string \<Rightarrow> string" where
  "CanonicalMIMEHeaderKey s =
     (if list_all validHeaderFieldByte s then canonical_from True s else s)"

subsection \<open>Reading bodies\<close>

fun ReadAll :: "reader \<Rightarrow> string option" where
  "ReadAll (Stream b) = Some b"
| "ReadAll (Buffered b) = Some b"
| "ReadAll Broken = None"

text \<open>
  Lines 133 to 137 and 214 to 218: the body kept for the log is the first \<open>10*1024\<close>
  bytes followed by a marker when it is longer than that, the whole body otherwise.
\<close>

definition limit_body :: "string \<Rightarrow> string" where
  "limit_body bodyBytes =
     (if length bodyBytes > 10 * 1024
      then take (10 * 1024) bodyBytes @ ''... [truncated]''
      else bodyBytes)"

subsection \<open>LogRequest\<close>

text \<open>
  Lines 113 to 123: one entry per header that has a value; the value is its first one,
  or the marker when the key is one of three names, compared with \<open>==\<close>.
\<close>

definition redact_headers :: "(string \<rightharpoonup> string list) \<Rightarrow> (string \<rightharpoonup> string)" where
  "redact_headers hdr =
     (\<lambda>key. case hdr key of
        None \<Rightarrow> None
      | Some vals \<Rightarrow>
          if length vals > 0 then
            (if key = ''Authorization'' \<or> key = ''X-Api-Key'' \<or> key = ''Api-Key''
             then Some ''[REDACTED]''
             else Some (vals ! 0))
          else None)"

text \<open>
  Lines 126 to 139: the body is read for POST, PUT and PATCH only, and put back as a
  buffer; a failed read leaves the logged body empty and the request as it is. The
  result is the logged body and the request after the call.
\<close>

definition read_request_body :: "Request \<Rightarrow> string \<times> Request" where
  "read_request_body req =
     (case req_Body req of
        None \<Rightarrow> ('''', req)
      | Some rd \<Rightarrow>
          if req_Method req = ''POST'' \<or> req_Method req = ''PUT'' \<or> req_Method req = ''PATCH''
          then (case ReadAll rd of
                  Some bodyBytes \<Rightarrow>
                    (limit_body bodyBytes, req\<lparr>req_Body := Some (Buffered bodyBytes)\<rparr>)
                | None \<Rightarrow> ('''', req))
          else ('''', req))"

text \<open>Lines 142 to 153: the entry. The response fields keep their zero values.\<close>

definition new_entry :: "env \<Rightarrow> Request \<Rightarrow> RequestLog" where
  "new_entry e req =
     \<lparr>ID = take 8 (UUID_String (uuid_New e)),
      Timestamp = now_UTC e,
      Method = req_Method req,
      Domain = req_Host req,
      Path = req_URL_Path req,
      Headers = redact_headers (req_Header req),
      Body = fst (read_request_body req),
      ResponseStatus = 0,
      ResponseHeaders = Map.empty,
      ResponseBody = '''',
      PcapFile = ''capture_'' @ now_Format e @ ''.pcap''\<rparr>"

text \<open>
  Lines 162 to 165 and 234 to 237: the line and a newline are appended to the file; a
  failed write is reported and nothing else changes.
\<close>

definition write_line :: "bool \<Rightarrow> string \<Rightarrow> string \<Rightarrow> string" where
  "write_line ok file data = (if ok then file @ data @ [CHR 0x0A] else file)"

text \<open>Lines 175 to 178: the loop that fills a fresh index, position \<open>i\<close> onwards.\<close>

fun rebuild_index :: "RequestLog list \<Rightarrow> nat \<Rightarrow> (string \<rightharpoonup> nat) \<Rightarrow> (string \<rightharpoonup> nat)" where
  "rebuild_index [] i idx = idx"
| "rebuild_index (r # rs) i idx = rebuild_index rs (Suc i) (idx(ID r \<mapsto> i))"

text \<open>
  Lines 168 to 179: the entry is appended and indexed; past 1000 entries the slice is
  cut to its last 1000 and the index is built again from it.
\<close>

definition add_to_memory :: "Logger \<Rightarrow> RequestLog \<Rightarrow> Logger" where
  "add_to_memory l entry =
     (let reqs = requests l @ [entry];
          idx = (requestIdx l)(ID entry \<mapsto> length reqs - 1)
      in if length reqs > 1000
         then (let kept = drop (length reqs - 1000) reqs
               in l\<lparr>requests := kept, requestIdx := rebuild_index kept 0 Map.empty\<rparr>)
         else l\<lparr>requests := reqs, requestIdx := idx\<rparr>)"

text \<open>
  \<open>LogRequest\<close>: the logger after the call, the request after the call, and the entry
  returned. When the entry cannot be marshalled the function returns before it writes
  or stores anything (line 159).
\<close>

definition LogRequest :: "marshal \<Rightarrow> env \<Rightarrow> Logger \<Rightarrow> Request \<Rightarrow> Logger \<times> Request \<times> RequestLog" where
  "LogRequest json_Marshal e l req =
     (let entry = new_entry e req;
          req' = snd (read_request_body req)
      in case json_Marshal entry of
           None \<Rightarrow> (l, req', entry)
         | Some data \<Rightarrow>
             (add_to_memory (l\<lparr>logFile := write_line (write_ok e) (logFile l) data\<rparr>) entry,
              req', entry))"

text \<open>\<open>GetRequests\<close> returns a copy of the slice.\<close>

definition GetRequests :: "Logger \<Rightarrow> RequestLog list" where
  "GetRequests l = requests l"

text \<open>A sequence of \<open>LogRequest\<close> calls, one after the other, on the same logger.\<close>

fun LogRequest_seq :: "marshal \<Rightarrow> Logger \<Rightarrow> (env \<times> Request) list \<Rightarrow> Logger" where
  "LogRequest_seq json_Marshal l [] = l"
| "LogRequest_seq json_Marshal l (c # cs) =
     LogRequest_seq json_Marshal (fst (LogRequest json_Marshal (fst c) l (snd c))) cs"

subsection \<open>LogResponse\<close>

text \<open>Lines 199 to 204: the first value of every response header that has one.\<close>

definition first_values :: "(string \<rightharpoonup> string list) \<Rightarrow> (string \<rightharpoonup> string)" where
  "first_values hdr =
     (\<lambda>key. case hdr key of
        None \<Rightarrow> None
      | Some vals \<Rightarrow> if length vals > 0 then Some (vals ! 0) else None)"

text \<open>Lines 207 to 220: the response body is read whatever the method.\<close>

definition read_response_body :: "Response \<Rightarrow> string \<times> Response" where
  "read_response_body resp =
     (case resp_Body resp of
        None \<Rightarrow> ('''', resp)
      | Some rd \<Rightarrow>
          (case ReadAll rd of
             Some bodyBytes \<Rightarrow>
               (limit_body bodyBytes, resp\<lparr>resp_Body := Some (Buffered bodyBytes)\<rparr>)
           | None \<Rightarrow> ('''', resp)))"

text \<open>Lines 223 to 225: the three response fields of an entry are assigned.\<close>

definition set_response :: "RequestLog \<Rightarrow> Response \<Rightarrow> RequestLog" where
  "set_response r resp =
     r\<lparr>ResponseStatus := resp_StatusCode resp,
       ResponseHeaders := first_values (resp_Header resp),
       ResponseBody := fst (read_response_body resp)\<rparr>"

text \<open>
  \<open>LogResponse\<close>: the logger and the response after the call. \<open>None\<close> is the panic of
  \<open>l.requests[idx]\<close> with \<open>idx\<close> out of range. A nil response and an id that the index
  does not hold return at once. Otherwise the entry at \<open>idx\<close> gets the three response
  fields and is appended to the file as a new line; when it cannot be marshalled the
  entry stays updated and nothing is written (line 231).
\<close>

definition LogResponse ::
  "marshal \<Rightarrow> bool \<Rightarrow> Logger \<Rightarrow> string \<Rightarrow> Response option \<Rightarrow> (Logger \<times> Response option) option" where
  "LogResponse json_Marshal wr_ok l requestID resp_opt =
     (case resp_opt of
        None \<Rightarrow> Some (l, None)
      | Some resp \<Rightarrow>
          (case requestIdx l requestID of
             None \<Rightarrow> Some (l, Some resp)
           | Some idx \<Rightarrow>
               (let resp' = snd (read_response_body resp)
                in if idx < length (requests l) then
                     (let updated = set_response (requests l ! idx) resp;
                          l1 = l\<lparr>requests := (requests l)[idx := updated]\<rparr>
                      in case json_Marshal updated of
                           None \<Rightarrow> Some (l1, Some resp')
                         | Some data \<Rightarrow>
                             Some (l1\<lparr>logFile := write_line wr_ok (logFile l1) data\<rparr>, Some resp'))
                   else None)))"

subsection \<open>Loading the file at start\<close>

text \<open>
  \<open>splitLines\<close>: \<open>cur\<close> is \<open>data[start:i]\<close>, the bytes since the last newline. A last
  line without a newline is kept when it is not empty (\<open>start < len(data)\<close>).
\<close>

fun splitLines_from :: "string \<Rightarrow> string \<Rightarrow> string list" where
  "splitLines_from cur [] = (if cur \<noteq> [] then [cur] else [])"
| "splitLines_from cur (b # bs) =
     (if b = CHR 0x0A then cur # splitLines_from [] bs
      else splitLines_from (cur @ [b]) bs)"

definition splitLines :: "string \<Rightarrow> string list" where
  "splitLines data = splitLines_from [] data"

text \<open>Lines 78 to 87: empty lines and lines that do not parse are passed over.\<close>

fun load_lines :: "unmarshal \<Rightarrow> string list \<Rightarrow> RequestLog list \<Rightarrow> RequestLog list" where
  "load_lines json_Unmarshal [] reqs = reqs"
| "load_lines json_Unmarshal (line # lines) reqs =
     (if length line = 0 then load_lines json_Unmarshal lines reqs
      else (case json_Unmarshal line of
              None \<Rightarrow> load_lines json_Unmarshal lines reqs
            | Some req \<Rightarrow> load_lines json_Unmarshal lines (reqs @ [req])))"

text \<open>The three results of \<open>os.ReadFile\<close> that \<open>loadExistingLogs\<close> tells apart.\<close>

datatype read_result = Data string | NotExist | ReadError

text \<open>
  \<open>loadExistingLogs\<close>: whether an error is returned, and the logger after the call.
  Only \<open>requests\<close> is assigned.
\<close>

definition loadExistingLogs :: "unmarshal \<Rightarrow> read_result \<Rightarrow> Logger \<Rightarrow> bool \<times> Logger" where
  "loadExistingLogs json_Unmarshal rf l =
     (case rf of
        NotExist \<Rightarrow> (False, l)
      | ReadError \<Rightarrow> (True, l)
      | Data data \<Rightarrow>
          (False, l\<lparr>requests := load_lines json_Unmarshal (splitLines data) (requests l)\<rparr>))"

text \<open>
  \<open>NewLogger\<close>. \<open>opened\<close> is what \<open>os.OpenFile\<close> gives: the bytes of the file
  (none when it has just been created), or \<open>None\<close> for an error, which \<open>NewLogger\<close>
  returns. \<open>rf\<close> is what \<open>os.ReadFile\<close> gives in \<open>loadExistingLogs\<close>, whose error
  is only printed.
\<close>

definition fresh_Logger :: "string \<Rightarrow> Logger" where
  "fresh_Logger file = \<lparr>requests = [], requestIdx = Map.empty, logFile = file\<rparr>"

definition NewLogger :: "unmarshal \<Rightarrow> string option \<Rightarrow> read_result \<Rightarrow> Logger option" where
  "NewLogger json_Unmarshal opened rf =
     (case opened of
        None \<Rightarrow> None
      | Some file \<Rightarrow> Some (snd (loadExistingLogs json_Unmarshal rf (fresh_Logger file))))"

section \<open>Predicates and examples\<close>

text \<open>
  The index is consistent when every position it holds is a position of the slice and
  the entry there has the id; it is complete when it holds the id of every entry.
\<close>

definition index_consistent :: "Logger \<Rightarrow> bool" where
  "index_consistent l \<longleftrightarrow>
     (\<forall>k i. requestIdx l k = Some i \<longrightarrow> i < length (requests l) \<and> ID (requests l ! i) = k)"

definition index_complete :: "Logger \<Rightarrow> bool" where
  "index_complete l \<longleftrightarrow> dom (requestIdx l) = ID ` set (requests l)"

text \<open>
  The header map of a request that \<open>net/http\<close> has parsed, which is what the proxy
  passes to \<open>LogRequest\<close>: every key is in canonical form.
\<close>

definition canonical_Header :: "(string \<rightharpoonup> string list) \<Rightarrow> bool" where
  "canonical_Header hdr \<longleftrightarrow> (\<forall>key \<in> dom hdr. CanonicalMIMEHeaderKey key = key)"

text \<open>The entry that one call of a sequence makes.\<close>

definition entry_of :: "env \<times> Request \<Rightarrow> RequestLog" where
  "entry_of c = new_entry (fst c) (snd c)"

text \<open>
  Concrete inputs for the examples. \<open>example_Marshal\<close> stands for an encoder that never
  fails; \<open>example_Unmarshal\<close> for a decoder that reads the empty JSON object as the
  zero entry and rejects everything else.
\<close>

definition example_Marshal :: marshal where
  "example_Marshal r =
     Some (ID r @ '' '' @ Method r @ '' '' @ Path r @ '' '' @ Body r @ '' '' @ ResponseBody r)"

definition zero_RequestLog :: RequestLog where
  "zero_RequestLog =
     \<lparr>ID = [], Timestamp = 0, Method = [], Domain = [], Path = [], Headers = Map.empty,
      Body = [], ResponseStatus = 0, ResponseHeaders = Map.empty, ResponseBody = [],
      PcapFile = []\<rparr>"

definition example_Unmarshal :: unmarshal where
  "example_Unmarshal line = (if line = ''{}'' then Some zero_RequestLog else None)"

definition example_env :: env where
  "example_env =
     \<lparr>uuid_New = [CHR 0x3f, CHR 0x2a, CHR 0x9c, CHR 0x1e, CHR 0x8b, CHR 0x7d, CHR 0x4e, CHR 0x6f,
                  CHR 0x9a, CHR 0x0b, CHR 0x1c, CHR 0x2d, CHR 0x3e, CHR 0x4f, CHR 0x5a, CHR 0x6b],
      now_Format = ''20240101_120000'', now_UTC = 0, write_ok = True\<rparr>"

definition other_env :: env where
  "other_env =
     \<lparr>uuid_New = [CHR 0x3f, CHR 0x2a, CHR 0x9c, CHR 0x1e, CHR 0x00, CHR 0x00, CHR 0x40, CHR 0x00,
                  CHR 0x80, CHR 0x00, CHR 0x00, CHR 0x00, CHR 0x00, CHR 0x00, CHR 0x00, CHR 0x01],
      now_Format = ''20240101_120001'', now_UTC = 1, write_ok = True\<rparr>"

definition third_env :: env where
  "third_env =
     \<lparr>uuid_New = [CHR 0x9d, CHR 0x4e, CHR 0x1f, CHR 0x70, CHR 0x8b, CHR 0x7d, CHR 0x4e, CHR 0x6f,
                  CHR 0x9a, CHR 0x0b, CHR 0x1c, CHR 0x2d, CHR 0x3e, CHR 0x4f, CHR 0x5a, CHR 0x6b],
      now_Format = ''20240101_120002'', now_UTC = 2, write_ok = True\<rparr>"

definition empty_Logger :: Logger where
  "empty_Logger = \<lparr>requests = [], requestIdx = Map.empty, logFile = []\<rparr>"

definition example_GET :: Request where
  "example_GET =
     \<lparr>req_Method = ''GET'', req_Host = ''example.com'', req_URL_Path = ''/a'',
      req_Header = [''Authorization'' \<mapsto> [''Bearer secret123'']],
      req_Body = Some (Stream (replicate 20480 (CHR ''a'')))\<rparr>"

definition example_POST :: Request where
  "example_POST =
     \<lparr>req_Method = ''POST'', req_Host = ''example.com'', req_URL_Path = ''/b'',
      req_Header = [''X-Api-Key'' \<mapsto> [''key-4f9d1c'']],
      req_Body = Some (Stream (replicate 20480 (CHR ''a'')))\<rparr>"

definition example_200 :: Response where
  "example_200 =
     \<lparr>resp_StatusCode = 200, resp_Header = Map.empty, resp_Body = Some (Stream ''ok'')\<rparr>"

definition example_500 :: Response where
  "example_500 =
     \<lparr>resp_StatusCode = 500, resp_Header = Map.empty, resp_Body = Some (Stream ''failed'')\<rparr>"

text \<open>
  A sequence of \<open>LogResponse\<close> calls whose writes succeed, one after the other on the
  same logger; a panic ends it.
\<close>

fun LogResponse_seq :: "marshal \<Rightarrow> Logger \<Rightarrow> (string \<times> Response) list \<Rightarrow> Logger option" where
  "LogResponse_seq json_Marshal l [] = Some l"
| "LogResponse_seq json_Marshal l (c # cs) =
     (case LogResponse json_Marshal True l (fst c) (Some (snd c)) of
        None \<Rightarrow> None
      | Some res \<Rightarrow> LogResponse_seq json_Marshal (fst res) cs)"

text \<open>
  The logger after \<open>example_GET\<close> has been logged, and 1500 calls with that request
  whose UUIDs differ in their first two bytes.
\<close>

definition one_Logger :: Logger where
  "one_Logger = fst (LogRequest example_Marshal example_env empty_Logger example_GET)"

definition numbered_env :: "nat \<Rightarrow> env" where
  "numbered_env n =
     example_env\<lparr>uuid_New := [char_of (n div 256), char_of (n mod 256)] @ drop 2 (uuid_New example_env)\<rparr>"

definition example_calls :: "(env \<times> Request) list" where
  "example_calls = map (\<lambda>n. (numbered_env n, example_GET)) [0..<1500]"

section \<open>The certificate authority (src/proxy/ca.go, first part)\<close>

text \<open>
  The files of the machine: a path and the bytes stored there. \<open>os.Stat\<close> succeeds on
  the paths that have bytes, \<open>os.ReadFile\<close> returns them, \<open>os.WriteFile\<close> replaces
  them when it succeeds and changes nothing when it fails. \<open>filepath.Join\<close> is a
  parameter of the operations.
\<close>

type_synonym files = "string \<rightharpoonup> string"
type_synonym join = "string \<Rightarrow> string \<Rightarrow> string"

text \<open>
  \<open>CAConfig\<close>, over a type of parsed certificates and a type of private keys, and the
  functions of the Go library that \<open>loadCA\<close> and \<open>createCA\<close> call: \<open>pem.Decode\<close> (the
  bytes of the first block, \<open>None\<close> for a nil block), \<open>pem.EncodeToMemory\<close> (block
  type and bytes), and three functions of \<open>x509\<close>.
\<close>

record ('c, 'k) CAConfig =
  Cert :: 'c
  Key :: 'k
  CertPEM :: string
  KeyPEM :: string

record ('c, 'k) crypto =
  pem_Decode :: "string \<Rightarrow> string option"
  pem_EncodeToMemory :: "string \<Rightarrow> string \<Rightarrow> string"
  x509_ParseCertificate :: "string \<Rightarrow> 'c option"
  x509_ParsePKCS1PrivateKey :: "string \<Rightarrow> 'k option"
  x509_MarshalPKCS1PrivateKey :: "'k \<Rightarrow> string"

text \<open>
  What one call of \<open>createCA\<close> takes from outside the program: the key and the serial
  number drawn from \<open>rand.Reader\<close>, the certificate that \<open>x509.CreateCertificate\<close>
  signs for that serial number and key at the current time (each \<open>None\<close> on error), and
  whether the two writes succeed.
\<close>

record 'k ca_env =
  rsa_GenerateKey :: "'k option"
  rand_Int :: "nat option"
  x509_CreateCertificate :: "nat \<Rightarrow> 'k \<Rightarrow> string option"
  write_cert_ok :: bool
  write_key_ok :: bool

text \<open>One constructor per error return of \<open>loadCA\<close> and \<open>createCA\<close>, in source order.\<close>

datatype ca_error =
    ReadCertFailed | ReadKeyFailed | DecodeCertFailed | ParseCertFailed
  | DecodeKeyFailed | ParseKeyFailed
  | GenerateKeyFailed | SerialFailed | CreateCertFailed | ParseCreatedFailed
  | WriteCertFailed | WriteKeyFailed

definition loadCA ::
  "('c, 'k) crypto \<Rightarrow> files \<Rightarrow> string \<Rightarrow> string \<Rightarrow> ca_error + ('c, 'k) CAConfig" where
  "loadCA lib fs certPath keyPath =
     (case fs certPath of
        None \<Rightarrow> Inl ReadCertFailed
      | Some certPEM \<Rightarrow>
     (case fs keyPath of
        None \<Rightarrow> Inl ReadKeyFailed
      | Some keyPEM \<Rightarrow>
     (case pem_Decode lib certPEM of
        None \<Rightarrow> Inl DecodeCertFailed
      | Some certBytes \<Rightarrow>
     (case x509_ParseCertificate lib certBytes of
        None \<Rightarrow> Inl ParseCertFailed
      | Some cert \<Rightarrow>
     (case pem_Decode lib keyPEM of
        None \<Rightarrow> Inl DecodeKeyFailed
      | Some keyBytes \<Rightarrow>
     (case x509_ParsePKCS1PrivateKey lib keyBytes of
        None \<Rightarrow> Inl ParseKeyFailed
      | Some key \<Rightarrow>
          Inr \<lparr>Cert = cert, Key = key, CertPEM = certPEM, KeyPEM = keyPEM\<rparr>))))))"

text \<open>\<open>createCA\<close>: the result and the files after the call.\<close>

definition createCA ::
  "('c, 'k) crypto \<Rightarrow> 'k ca_env \<Rightarrow> files \<Rightarrow> string \<Rightarrow> string \<Rightarrow>
     (ca_error + ('c, 'k) CAConfig) \<times> files" where
  "createCA lib e fs certPath keyPath =
     (case rsa_GenerateKey e of
        None \<Rightarrow> (Inl GenerateKeyFailed, fs)
      | Some key \<Rightarrow>
     (case rand_Int e of
        None \<Rightarrow> (Inl SerialFailed, fs)
      | Some serialNumber \<Rightarrow>
     (case x509_CreateCertificate e serialNumber key of
        None \<Rightarrow> (Inl CreateCertFailed, fs)
      | Some certDER \<Rightarrow>
     (case x509_ParseCertificate lib certDER of
        None \<Rightarrow> (Inl ParseCreatedFailed, fs)
      | Some cert \<Rightarrow>
          (let certPEM = pem_EncodeToMemory lib ''CERTIFICATE'' certDER;
               keyPEM = pem_EncodeToMemory lib ''RSA PRIVATE KEY''
                          (x509_MarshalPKCS1PrivateKey lib key)
           in if \<not> write_cert_ok e then (Inl WriteCertFailed, fs)
              else if \<not> write_key_ok e then (Inl WriteKeyFailed, fs(certPath \<mapsto> certPEM))
              else (Inr \<lparr>Cert = cert, Key = key, CertPEM = certPEM, KeyPEM = keyPEM\<rparr>,
                    fs(certPath \<mapsto> certPEM, keyPath \<mapsto> keyPEM)))))))"

definition LoadOrCreateCA ::
  "join \<Rightarrow> ('c, 'k) crypto \<Rightarrow> 'k ca_env \<Rightarrow> files \<Rightarrow> string \<Rightarrow>
     (ca_error + ('c, 'k) CAConfig) \<times> files" where
  "LoadOrCreateCA filepath_Join lib e fs logsDir =
     (let certPath = filepath_Join logsDir ''ca.crt'';
          keyPath = filepath_Join logsDir ''ca.key''
      in if fs certPath \<noteq> None \<and> fs keyPath \<noteq> None
         then (loadCA lib fs certPath keyPath, fs)
         else createCA lib e fs certPath keyPath)"

section \<open>The capture-file download (src/proxy/ca.go, second part)\<close>









datatype opened = RegularFile string | Directory









text \<open>Concrete inputs for the examples of this part.\<close>

definition example_Join :: join where
  "example_Join dir name = dir @ ''/'' @ name"

definition example_crypto :: "(string, string) crypto" where
  "example_crypto =
     \<lparr>pem_Decode = (\<lambda>pem. case pem of [] \<Rightarrow> None | c # bytes \<Rightarrow> if c = CHR ''P'' then Some bytes else None),
      pem_EncodeToMemory = (\<lambda>ty bytes. CHR ''P'' # bytes),
      x509_ParseCertificate = Some,
      x509_ParsePKCS1PrivateKey = Some,
      x509_MarshalPKCS1PrivateKey = (\<lambda>key. key)\<rparr>"

definition example_ca_env :: "string ca_env" where
  "example_ca_env =
     \<lparr>rsa_GenerateKey = Some ''key-1'', rand_Int = Some 7,
      x509_CreateCertificate = (\<lambda>serial key. Some (''cert-of-'' @ key)),
      write_cert_ok = True, write_key_ok = True\<rparr>"

definition other_ca_env :: "string ca_env" where
  "other_ca_env =
     \<lparr>rsa_GenerateKey = Some ''key-2'', rand_Int = Some 8,
      x509_CreateCertificate = (\<lambda>serial key. Some (''cert-of-'' @ key)),
      write_cert_ok = True, write_key_ok = True\<rparr>"




section \<open>Properties of the audit log\<close>

lemma requests_add_to_memory:
  "requests (add_to_memory l entry) =
     drop (Suc (length (requests l)) - 1000) (requests l @ [entry])"
  by (simp add: add_to_memory_def Let_def)

lemma logFile_add_to_memory: "logFile (add_to_memory l entry) = logFile l"
  by (simp add: add_to_memory_def Let_def)

lemma last_add_to_memory: "last (requests (add_to_memory l entry)) = entry"
  by (simp add: requests_add_to_memory)

lemma rebuild_index_dom: "dom (rebuild_index rs i idx) = dom idx \<union> ID ` set rs"
  by (induction rs arbitrary: i idx) auto

lemma rebuild_index_sound:
  "rebuild_index rs i idx k = Some j \<Longrightarrow>
     idx k = Some j \<or> (i \<le> j \<and> j < i + length rs \<and> ID (rs ! (j - i)) = k)"
proof (induction rs arbitrary: i idx)
  case Nil
  then show ?case by simp
next
  case (Cons r rs)
  from Cons.prems have "rebuild_index rs (Suc i) (idx(ID r \<mapsto> i)) k = Some j" by simp
  from Cons.IH[OF this]
  consider "(idx(ID r \<mapsto> i)) k = Some j"
    | "Suc i \<le> j" "j < Suc i + length rs" "ID (rs ! (j - Suc i)) = k"
    by blast
  then show ?case
  proof cases
    case 1
    then show ?thesis by (cases "k = ID r") auto
  next
    case 2
    then have "j - i = Suc (j - Suc i)" by arith
    with 2 show ?thesis by simp
  qed
qed

lemma rebuild_index_consistent:
  "rebuild_index rs 0 Map.empty k = Some j \<Longrightarrow> j < length rs \<and> ID (rs ! j) = k"
  using rebuild_index_sound[of rs 0 Map.empty k j] by simp

lemma add_to_memory_consistent:
  assumes "index_consistent l"
  shows "index_consistent (add_to_memory l entry)"
proof (cases "Suc (length (requests l)) > 1000")
  case True
  then show ?thesis
    by (auto simp: index_consistent_def add_to_memory_def Let_def dest: rebuild_index_consistent)
next
  case False
  have "i < Suc (length (requests l)) \<and> ID ((requests l @ [entry]) ! i) = k"
    if "((requestIdx l)(ID entry \<mapsto> length (requests l))) k = Some i" for k i
  proof (cases "k = ID entry")
    case True
    with that show ?thesis by (auto simp: nth_append)
  next
    case False
    with that have "requestIdx l k = Some i" by simp
    with assms have "i < length (requests l)" "ID (requests l ! i) = k"
      by (auto simp: index_consistent_def)
    then show ?thesis by (simp add: nth_append)
  qed
  with False show ?thesis
    by (simp add: index_consistent_def add_to_memory_def Let_def)
qed

lemma add_to_memory_evict:
  assumes "length (requests l) \<ge> 1000"
  shows "index_consistent (add_to_memory l entry) \<and> index_complete (add_to_memory l entry)"
  using assms
  by (auto simp: index_consistent_def index_complete_def add_to_memory_def Let_def rebuild_index_dom
      dest: rebuild_index_consistent)

lemma LogRequest_logger:
  "fst (LogRequest m e l req) =
     (case m (new_entry e req) of
        None \<Rightarrow> l
      | Some data \<Rightarrow> add_to_memory (l\<lparr>logFile := write_line (write_ok e) (logFile l) data\<rparr>) (new_entry e req))"
  by (simp add: LogRequest_def Let_def split: option.splits)

lemma LogRequest_entry: "snd (snd (LogRequest m e l req)) = new_entry e req"
  by (simp add: LogRequest_def Let_def split: option.splits)

lemma LogRequest_consistent:
  "index_consistent l \<Longrightarrow> index_consistent (fst (LogRequest m e l req))"
proof -
  assume a: "index_consistent l"
  have "index_consistent (l\<lparr>logFile := f\<rparr>)" for f
    using a by (simp add: index_consistent_def)
  then show ?thesis
    by (auto simp: LogRequest_logger a split: option.splits intro: add_to_memory_consistent)
qed

lemma LogRequest_seq_append:
  "LogRequest_seq m l (xs @ ys) = LogRequest_seq m (LogRequest_seq m l xs) ys"
  by (induction xs arbitrary: l) auto

lemma LogRequest_seq_consistent:
  "index_consistent l \<Longrightarrow> index_consistent (LogRequest_seq m l cs)"
  by (induction cs arbitrary: l) (auto intro: LogRequest_consistent)

lemma keep_last_step:
  "drop (Suc (length (drop (length xs - 1000) xs)) - 1000) (drop (length xs - 1000) xs @ [e])
     = drop (length (xs @ [e]) - 1000) (xs @ [e])"
proof (cases "length xs \<ge> 1000")
  case True
  then have "Suc (length xs - 1000) = length xs - 999" by arith
  with True show ?thesis by simp
next
  case False
  then show ?thesis by simp
qed

lemma requests_LogRequest_seq:
  assumes "\<forall>c \<in> set cs. m (entry_of c) \<noteq> None" "cs \<noteq> []"
  shows "requests (LogRequest_seq m l cs) =
           drop (length (requests l) + length cs - 1000) (requests l @ map entry_of cs)"
  using assms
proof (induction cs arbitrary: l rule: rev_induct)
  case Nil
  then show ?case by simp
next
  case (snoc c cs)
  from snoc.prems obtain data where d: "m (new_entry (fst c) (snd c)) = Some data"
    by (auto simp: entry_of_def)
  let ?l = "LogRequest_seq m l cs"
  have step: "requests (LogRequest_seq m l (cs @ [c])) =
      drop (Suc (length (requests ?l)) - 1000) (requests ?l @ [entry_of c])"
    by (simp add: LogRequest_seq_append LogRequest_logger d requests_add_to_memory entry_of_def)
  show ?case
  proof (cases "cs = []")
    case True
    with step show ?thesis by simp
  next
    case False
    with snoc have "requests ?l =
        drop (length (requests l) + length cs - 1000) (requests l @ map entry_of cs)"
      by simp
    with step keep_last_step[of "requests l @ map entry_of cs" "entry_of c"]
    show ?thesis by simp
  qed
qed

lemma read_request_body_other:
  "req_Method req \<noteq> ''POST'' \<Longrightarrow> req_Method req \<noteq> ''PUT'' \<Longrightarrow> req_Method req \<noteq> ''PATCH'' \<Longrightarrow>
   read_request_body req = ([], req)"
  by (simp add: read_request_body_def split: option.splits)

lemma LogRequest_request: "fst (snd (LogRequest m e l req)) = snd (read_request_body req)"
  by (simp add: LogRequest_def Let_def split: option.splits)

lemma LogRequest_stored:
  "m (new_entry e req) = Some data \<Longrightarrow>
   last (GetRequests (fst (LogRequest m e l req))) = new_entry e req"
  by (simp add: LogRequest_logger GetRequests_def last_add_to_memory)

lemma LogRequest_file:
  "m (new_entry e req) = Some data \<Longrightarrow>
   logFile (fst (LogRequest m e l req)) = write_line (write_ok e) (logFile l) data"
  by (simp add: LogRequest_logger logFile_add_to_memory)

text \<open>
  C10. A request whose method is none of POST, PUT and PATCH is logged with an empty
  body, whatever body it carries: the entry returned and the entry stored have
  \<open>Body = ""\<close>, and the request's body is left unread.
\<close>

theorem LogRequest_body_only_POST_PUT_PATCH:
  assumes "req_Method req \<noteq> ''POST''" and "req_Method req \<noteq> ''PUT''"
    and "req_Method req \<noteq> ''PATCH''"
  shows "Body (snd (snd (LogRequest m e l req))) = []
       \<and> fst (snd (LogRequest m e l req)) = req
       \<and> (\<forall>data. m (new_entry e req) = Some data \<longrightarrow>
            Body (last (GetRequests (fst (LogRequest m e l req)))) = [])"
proof -
  have "read_request_body req = ([], req)"
    using assms by (rule read_request_body_other)
  then have b: "Body (new_entry e req) = []" and r: "snd (read_request_body req) = req"
    by (simp_all add: new_entry_def)
  show ?thesis
    by (simp add: LogRequest_entry LogRequest_request LogRequest_stored b r)
qed

theorem LogRequest_body_only_POST_PUT_PATCH_witness:
  "Body (snd (snd (LogRequest example_Marshal example_env empty_Logger example_GET))) = []
   \<and> fst (snd (LogRequest example_Marshal example_env empty_Logger example_GET)) = example_GET
   \<and> Body (last (GetRequests (fst (LogRequest example_Marshal example_env empty_Logger example_GET)))) = []"
proof -
  have m: "req_Method example_GET \<noteq> ''POST''" "req_Method example_GET \<noteq> ''PUT''"
    "req_Method example_GET \<noteq> ''PATCH''"
    by (simp_all add: example_GET_def)
  have d: "example_Marshal (new_entry example_env example_GET)
      = Some (the (example_Marshal (new_entry example_env example_GET)))"
    by (simp add: example_Marshal_def)
  from LogRequest_body_only_POST_PUT_PATCH[OF m, of example_Marshal example_env empty_Logger] d
  show ?thesis by blast
qed

lemma read_request_body_read:
  assumes "req_Method req = ''POST'' \<or> req_Method req = ''PUT'' \<or> req_Method req = ''PATCH''"
    and "req_Body req = Some rd" and "ReadAll rd = Some b"
  shows "read_request_body req = (limit_body b, req\<lparr>req_Body := Some (Buffered b)\<rparr>)"
  using assms by (auto simp: read_request_body_def)

lemma read_response_body_read:
  assumes "resp_Body resp = Some rd" and "ReadAll rd = Some b"
  shows "read_response_body resp = (limit_body b, resp\<lparr>resp_Body := Some (Buffered b)\<rparr>)"
  using assms by (simp add: read_response_body_def)

lemma LogResponse_found:
  assumes "requestIdx l k = Some idx" and "idx < length (requests l)"
  shows "LogResponse m w l k (Some resp) =
     Some (l\<lparr>requests := (requests l)[idx := set_response (requests l ! idx) resp],
             logFile := (case m (set_response (requests l ! idx) resp) of
                           None \<Rightarrow> logFile l
                         | Some data \<Rightarrow> write_line w (logFile l) data)\<rparr>,
           Some (snd (read_response_body resp)))"
  using assms by (simp add: LogResponse_def Let_def split: option.splits)

lemma read_request_body_empty:
  assumes "\<not> (req_Method req = ''POST'' \<or> req_Method req = ''PUT'' \<or> req_Method req = ''PATCH'')
      \<or> req_Body req = None \<or> (\<exists>rd. req_Body req = Some rd \<and> ReadAll rd = None)"
  shows "fst (read_request_body req) = []"
  using assms by (auto simp: read_request_body_def split: option.splits)

lemma read_response_body_empty:
  assumes "resp_Body resp = None \<or> (\<exists>rd. resp_Body resp = Some rd \<and> ReadAll rd = None)"
  shows "fst (read_response_body resp) = []"
  using assms by (auto simp: read_response_body_def split: option.splits)

lemma LogResponse_found_stored:
  assumes "requestIdx l k = Some idx" and "idx < length (requests l)"
  shows "\<exists>l' resp'. LogResponse m w l k (Some resp) = Some (l', resp')
      \<and> GetRequests l' ! idx = set_response (requests l ! idx) resp
      \<and> (\<forall>data. m (GetRequests l' ! idx) = Some data \<longrightarrow>
            logFile l' = write_line w (logFile l) data)"
  using assms by (simp add: LogResponse_found GetRequests_def)

text \<open>
  C6, as amended. The body of a POST, PUT or PATCH request that is read without error is
  stored capped: its first \<open>10*1024\<close> bytes followed by \<open>"... [truncated]"\<close> when it is
  longer than that, the body unmodified otherwise; this is the body of the entry
  returned, which is the entry stored, and the line appended to the file is the encoding
  of that entry. The body of a request with another method, with no body or with a body
  whose read fails is stored empty. The body of a response that completes an indexed
  entry is stored in that entry capped in the same way when it is read without error,
  and empty when there is none or its read fails; the line appended is the encoding of
  the entry so completed.
\<close>

theorem bodies_capped_when_read:
  "((req_Method req = ''POST'' \<or> req_Method req = ''PUT'' \<or> req_Method req = ''PATCH'') \<and>
    req_Body req = Some rd \<and> ReadAll rd = Some b \<longrightarrow>
      Body (snd (snd (LogRequest m e l req))) =
        (if length b > 10 * 1024 then take (10 * 1024) b @ ''... [truncated]'' else b) \<and>
      (\<forall>data. m (snd (snd (LogRequest m e l req))) = Some data \<longrightarrow>
         last (GetRequests (fst (LogRequest m e l req))) = snd (snd (LogRequest m e l req)) \<and>
         Body (last (GetRequests (fst (LogRequest m e l req)))) =
           (if length b > 10 * 1024 then take (10 * 1024) b @ ''... [truncated]'' else b) \<and>
         logFile (fst (LogRequest m e l req)) = write_line (write_ok e) (logFile l) data)) \<and>
   (\<not> (req_Method req = ''POST'' \<or> req_Method req = ''PUT'' \<or> req_Method req = ''PATCH'') \<or>
    req_Body req = None \<or> (\<exists>rd. req_Body req = Some rd \<and> ReadAll rd = None) \<longrightarrow>
      Body (snd (snd (LogRequest m e l req))) = [] \<and>
      (\<forall>data. m (snd (snd (LogRequest m e l req))) = Some data \<longrightarrow>
         last (GetRequests (fst (LogRequest m e l req))) = snd (snd (LogRequest m e l req)) \<and>
         Body (last (GetRequests (fst (LogRequest m e l req)))) = [])) \<and>
   (requestIdx l k = Some idx \<and> idx < length (requests l) \<and>
    resp_Body resp = Some rd' \<and> ReadAll rd' = Some b' \<longrightarrow>
      (\<exists>l' resp'. LogResponse m w l k (Some resp) = Some (l', resp') \<and>
         ResponseBody (GetRequests l' ! idx) =
           (if length b' > 10 * 1024 then take (10 * 1024) b' @ ''... [truncated]'' else b') \<and>
         (\<forall>data. m (GetRequests l' ! idx) = Some data \<longrightarrow>
            logFile l' = write_line w (logFile l) data))) \<and>
   (requestIdx l k = Some idx \<and> idx < length (requests l) \<and>
    (resp_Body resp = None \<or> (\<exists>rd'. resp_Body resp = Some rd' \<and> ReadAll rd' = None)) \<longrightarrow>
      (\<exists>l' resp'. LogResponse m w l k (Some resp) = Some (l', resp') \<and>
         ResponseBody (GetRequests l' ! idx) = [] \<and>
         (\<forall>data. m (GetRequests l' ! idx) = Some data \<longrightarrow>
            logFile l' = write_line w (logFile l) data)))"
proof (intro conjI impI)
  assume a: "(req_Method req = ''POST'' \<or> req_Method req = ''PUT'' \<or> req_Method req = ''PATCH'') \<and>
    req_Body req = Some rd \<and> ReadAll rd = Some b"
  then have a1: "req_Method req = ''POST'' \<or> req_Method req = ''PUT'' \<or> req_Method req = ''PATCH''"
    and a2: "req_Body req = Some rd" and a3: "ReadAll rd = Some b"
    by simp_all
  have "read_request_body req = (limit_body b, req\<lparr>req_Body := Some (Buffered b)\<rparr>)"
    by (rule read_request_body_read[OF a1 a2 a3])
  then have body: "Body (new_entry e req) =
      (if length b > 10 * 1024 then take (10 * 1024) b @ ''... [truncated]'' else b)"
    by (simp add: new_entry_def limit_body_def)
  then show "Body (snd (snd (LogRequest m e l req))) =
        (if length b > 10 * 1024 then take (10 * 1024) b @ ''... [truncated]'' else b)"
    by (simp only: LogRequest_entry)
  show "\<forall>data. m (snd (snd (LogRequest m e l req))) = Some data \<longrightarrow>
         last (GetRequests (fst (LogRequest m e l req))) = snd (snd (LogRequest m e l req)) \<and>
         Body (last (GetRequests (fst (LogRequest m e l req)))) =
           (if length b > 10 * 1024 then take (10 * 1024) b @ ''... [truncated]'' else b) \<and>
         logFile (fst (LogRequest m e l req)) = write_line (write_ok e) (logFile l) data"
    using body by (simp add: LogRequest_entry LogRequest_stored LogRequest_file)
next
  assume "\<not> (req_Method req = ''POST'' \<or> req_Method req = ''PUT'' \<or> req_Method req = ''PATCH'') \<or>
    req_Body req = None \<or> (\<exists>rd. req_Body req = Some rd \<and> ReadAll rd = None)"
  then have "fst (read_request_body req) = []"
    by (rule read_request_body_empty)
  then have body: "Body (new_entry e req) = []"
    by (simp add: new_entry_def)
  then show "Body (snd (snd (LogRequest m e l req))) = []"
    by (simp only: LogRequest_entry)
  show "\<forall>data. m (snd (snd (LogRequest m e l req))) = Some data \<longrightarrow>
         last (GetRequests (fst (LogRequest m e l req))) = snd (snd (LogRequest m e l req)) \<and>
         Body (last (GetRequests (fst (LogRequest m e l req)))) = []"
    using body by (simp add: LogRequest_entry LogRequest_stored)
next
  assume a: "requestIdx l k = Some idx \<and> idx < length (requests l) \<and>
    resp_Body resp = Some rd' \<and> ReadAll rd' = Some b'"
  then have a2: "resp_Body resp = Some rd'" and a3: "ReadAll rd' = Some b'"
    by simp_all
  have "read_response_body resp = (limit_body b', resp\<lparr>resp_Body := Some (Buffered b')\<rparr>)"
    by (rule read_response_body_read[OF a2 a3])
  then have "ResponseBody (set_response (requests l ! idx) resp) =
      (if length b' > 10 * 1024 then take (10 * 1024) b' @ ''... [truncated]'' else b')"
    by (simp add: set_response_def limit_body_def)
  with a LogResponse_found_stored[of l k idx m w resp]
  show "\<exists>l' resp'. LogResponse m w l k (Some resp) = Some (l', resp') \<and>
         ResponseBody (GetRequests l' ! idx) =
           (if length b' > 10 * 1024 then take (10 * 1024) b' @ ''... [truncated]'' else b') \<and>
         (\<forall>data. m (GetRequests l' ! idx) = Some data \<longrightarrow>
            logFile l' = write_line w (logFile l) data)"
    by auto
next
  assume a: "requestIdx l k = Some idx \<and> idx < length (requests l) \<and>
    (resp_Body resp = None \<or> (\<exists>rd'. resp_Body resp = Some rd' \<and> ReadAll rd' = None))"
  then have "resp_Body resp = None \<or> (\<exists>rd'. resp_Body resp = Some rd' \<and> ReadAll rd' = None)"
    by simp
  then have "fst (read_response_body resp) = []"
    by (rule read_response_body_empty)
  then have "ResponseBody (set_response (requests l ! idx) resp) = []"
    by (simp add: set_response_def)
  with a LogResponse_found_stored[of l k idx m w resp]
  show "\<exists>l' resp'. LogResponse m w l k (Some resp) = Some (l', resp') \<and>
         ResponseBody (GetRequests l' ! idx) = [] \<and>
         (\<forall>data. m (GetRequests l' ! idx) = Some data \<longrightarrow>
            logFile l' = write_line w (logFile l) data)"
    by auto
qed

lemma one_Logger_eq:
  "fst (LogRequest example_Marshal example_env empty_Logger example_GET) =
     \<lparr>requests = [new_entry example_env example_GET],
      requestIdx = [''3f2a9c1e'' \<mapsto> 0],
      logFile = ''3f2a9c1e GET /a  '' @ [CHR 0x0A]\<rparr>"
  by (simp add: LogRequest_logger example_Marshal_def add_to_memory_def Let_def empty_Logger_def
      write_line_def new_entry_def example_env_def UUID_String_def hex_Encode_def hex_digit_def example_GET_def read_request_body_def)

lemma example_Marshal_total: "example_Marshal r = Some (the (example_Marshal r))"
  by (simp add: example_Marshal_def)

theorem bodies_capped_when_read_witness:
  "Body (last (GetRequests (fst (LogRequest example_Marshal other_env
       (fst (LogRequest example_Marshal example_env empty_Logger example_GET)) example_POST)))) =
     replicate 10240 (CHR ''a'') @ ''... [truncated]'' \<and>
   Body (last (GetRequests (fst (LogRequest example_Marshal other_env
       (fst (LogRequest example_Marshal example_env empty_Logger example_GET))
       (example_POST\<lparr>req_Body := Some Broken\<rparr>))))) = [] \<and>
   (\<exists>l' resp'. LogResponse example_Marshal True
        (fst (LogRequest example_Marshal example_env empty_Logger example_GET)) ''3f2a9c1e''
        (Some (example_200\<lparr>resp_Body := Some (Stream (replicate 1024 (CHR ''b'')))\<rparr>)) = Some (l', resp') \<and>
      ResponseBody (GetRequests l' ! 0) = replicate 1024 (CHR ''b'')) \<and>
   (\<exists>l' resp'. LogResponse example_Marshal True
        (fst (LogRequest example_Marshal example_env empty_Logger example_GET)) ''3f2a9c1e''
        (Some (example_200\<lparr>resp_Body := Some Broken\<rparr>)) = Some (l', resp') \<and>
      ResponseBody (GetRequests l' ! 0) = [])"
proof -
  let ?l = "fst (LogRequest example_Marshal example_env empty_Logger example_GET)"
  let ?r = "example_200\<lparr>resp_Body := Some (Stream (replicate 1024 (CHR ''b'')))\<rparr>"
  let ?q = "example_POST\<lparr>req_Body := Some Broken\<rparr>"
  let ?s = "example_200\<lparr>resp_Body := Some Broken\<rparr>"
  have p: "(req_Method example_POST = ''POST'' \<or> req_Method example_POST = ''PUT'' \<or>
      req_Method example_POST = ''PATCH'') \<and>
      req_Body example_POST = Some (Stream (replicate 20480 (CHR ''a''))) \<and>
      ReadAll (Stream (replicate 20480 (CHR ''a''))) = Some (replicate 20480 (CHR ''a''))"
    by (simp add: example_POST_def)
  have q: "requestIdx ?l ''3f2a9c1e'' = Some 0 \<and> 0 < length (requests ?l) \<and>
      resp_Body ?r = Some (Stream (replicate 1024 (CHR ''b''))) \<and>
      ReadAll (Stream (replicate 1024 (CHR ''b''))) = Some (replicate 1024 (CHR ''b''))"
    by (simp add: one_Logger_eq)
  have p': "\<not> (req_Method ?q = ''POST'' \<or> req_Method ?q = ''PUT'' \<or> req_Method ?q = ''PATCH'') \<or>
      req_Body ?q = None \<or> (\<exists>rd. req_Body ?q = Some rd \<and> ReadAll rd = None)"
    by simp
  have q': "requestIdx ?l ''3f2a9c1e'' = Some 0 \<and> 0 < length (requests ?l) \<and>
      (resp_Body ?s = None \<or> (\<exists>rd'. resp_Body ?s = Some rd' \<and> ReadAll rd' = None))"
    by (simp add: one_Logger_eq)
  note t = bodies_capped_when_read[where req = example_POST
      and rd = "Stream (replicate 20480 (CHR ''a''))" and b = "replicate 20480 (CHR ''a'')"
      and m = example_Marshal and e = other_env and l = ?l and k = "''3f2a9c1e''" and idx = 0
      and resp = ?r and rd' = "Stream (replicate 1024 (CHR ''b''))"
      and b' = "replicate 1024 (CHR ''b'')" and w = True]
  note t1 = mp[OF conjunct1[OF t] p]
  note t3 = mp[OF conjunct1[OF conjunct2[OF conjunct2[OF t]]] q]
  from conjunct1[OF conjunct2[OF mp[OF spec[OF conjunct2[OF t1]]
      example_Marshal_total[of "snd (snd (LogRequest example_Marshal other_env ?l example_POST))"]]]]
  have a1: "Body (last (GetRequests (fst (LogRequest example_Marshal other_env ?l example_POST)))) =
     replicate 10240 (CHR ''a'') @ ''... [truncated]''"
    by simp
  from t3
  have a3: "\<exists>l' resp'. LogResponse example_Marshal True ?l ''3f2a9c1e'' (Some ?r) = Some (l', resp') \<and>
      ResponseBody (GetRequests l' ! 0) = replicate 1024 (CHR ''b'')"
    by - (elim exE conjE, intro exI conjI, assumption, simp)
  note u = bodies_capped_when_read[where req = ?q
      and m = example_Marshal and e = other_env and l = ?l and k = "''3f2a9c1e''" and idx = 0
      and resp = ?s and w = True]
  note u2 = mp[OF conjunct1[OF conjunct2[OF u]] p']
  note u4 = mp[OF conjunct2[OF conjunct2[OF conjunct2[OF u]]] q']
  from conjunct2[OF mp[OF spec[OF conjunct2[OF u2]]
      example_Marshal_total[of "snd (snd (LogRequest example_Marshal other_env ?l ?q))"]]]
  have b2: "Body (last (GetRequests (fst (LogRequest example_Marshal other_env ?l ?q)))) = []"
    by simp
  from u4
  have b4: "\<exists>l' resp'. LogResponse example_Marshal True ?l ''3f2a9c1e'' (Some ?s) = Some (l', resp') \<and>
      ResponseBody (GetRequests l' ! 0) = []"
    by - (elim exE conjE, intro exI conjI, assumption, simp)
  from a1 b2 a3 b4 show ?thesis by (intro conjI)
qed

text \<open>
  C6 as stated fails for the other methods: a GET request that carries 20 KiB of
  \<open>a\<close> is stored with an empty body, not with the first 10 KiB and the marker.
\<close>

theorem GET_body_not_stored_counterexample:
  "Body (snd (snd (LogRequest example_Marshal example_env empty_Logger example_GET)))
     \<noteq> replicate 10240 (CHR ''a'') @ ''... [truncated]'' \<and>
   req_Body example_GET = Some (Stream (replicate 20480 (CHR ''a''))) \<and>
   Body (last (GetRequests (fst (LogRequest example_Marshal example_env empty_Logger example_GET)))) = []"
  by (simp add: one_Logger_eq GetRequests_def LogRequest_entry)
    (simp add: new_entry_def read_request_body_def example_GET_def)

text \<open>
  C7. \<open>LogResponse\<close> with an id that the index does not hold returns without a panic
  and leaves the logger as it was: the slice, the index and the file. With a
  consistent index that is the case of every id that no retained entry has.
\<close>

theorem LogResponse_absent_id_noop:
  "(requestIdx l k = None \<longrightarrow> LogResponse m w l k resp = Some (l, resp)) \<and>
   (index_consistent l \<and> k \<notin> ID ` set (requests l) \<longrightarrow> LogResponse m w l k resp = Some (l, resp))"
proof -
  have n: "LogResponse m w l k resp = Some (l, resp)" if "requestIdx l k = None"
    using that by (simp add: LogResponse_def split: option.splits)
  have "requestIdx l k = None" if "index_consistent l" "k \<notin> ID ` set (requests l)"
  proof (cases "requestIdx l k")
    case None
    then show ?thesis .
  next
    case (Some i)
    with that(1) have "i < length (requests l)" "ID (requests l ! i) = k"
      by (auto simp: index_consistent_def)
    then have "k \<in> ID ` set (requests l)" by (metis imageI nth_mem)
    with that(2) show ?thesis by simp
  qed
  then have "LogResponse m w l k resp = Some (l, resp)"
    if "index_consistent l \<and> k \<notin> ID ` set (requests l)"
    using that n by simp
  with n show ?thesis by simp
qed

theorem LogResponse_absent_id_noop_witness:
  "LogResponse example_Marshal True
     (fst (LogRequest example_Marshal example_env empty_Logger example_GET)) ''deadbeef'' (Some example_200)
   = Some (fst (LogRequest example_Marshal example_env empty_Logger example_GET), Some example_200)"
proof -
  let ?l = "fst (LogRequest example_Marshal example_env empty_Logger example_GET)"
  have "requestIdx ?l ''deadbeef'' = None"
    by (simp add: one_Logger_eq)
  with LogResponse_absent_id_noop[of ?l "''deadbeef''" example_Marshal True "Some example_200"]
  show ?thesis by simp
qed

lemma set_response_twice: "set_response (set_response r r1) r2 = set_response r r2"
  by (simp add: set_response_def)

lemma one_Logger_value:
  "one_Logger =
     \<lparr>requests = [new_entry example_env example_GET],
      requestIdx = [''3f2a9c1e'' \<mapsto> 0],
      logFile = ''3f2a9c1e GET /a  '' @ [CHR 0x0A]\<rparr>"
  by (simp add: one_Logger_def one_Logger_eq)

text \<open>
  C5, as amended. Every \<open>LogResponse\<close> for an id that the index holds assigns the
  three response fields of the entry at that position and appends the whole updated
  entry as one more line of the file; no earlier completion is looked at, so a second
  completion for the same id overwrites the first and appends a further line.
\<close>

theorem LogResponse_overwrites_each_time:
  assumes "requestIdx l k = Some idx" and "idx < length (requests l)"
    and "m (set_response (requests l ! idx) r1) = Some d1"
    and "m (set_response (requests l ! idx) r2) = Some d2"
  shows "LogResponse_seq m l [(k, r1)] =
           Some (l\<lparr>requests := (requests l)[idx := set_response (requests l ! idx) r1],
                   logFile := logFile l @ d1 @ [CHR 0x0A]\<rparr>)
       \<and> LogResponse_seq m l [(k, r1), (k, r2)] =
           Some (l\<lparr>requests := (requests l)[idx := set_response (requests l ! idx) r2],
                   logFile := logFile l @ d1 @ [CHR 0x0A] @ d2 @ [CHR 0x0A]\<rparr>)"
  using assms
  by (simp add: LogResponse_found set_response_twice write_line_def)

theorem LogResponse_overwrites_each_time_witness:
  "map_option (map ResponseStatus \<circ> GetRequests)
     (LogResponse_seq example_Marshal one_Logger [(''3f2a9c1e'', example_200)]) = Some [200]
   \<and> map_option logFile
     (LogResponse_seq example_Marshal one_Logger [(''3f2a9c1e'', example_200), (''3f2a9c1e'', example_500)])
     = Some (''3f2a9c1e GET /a  '' @ [CHR 0x0A] @ ''3f2a9c1e GET /a  ok'' @ [CHR 0x0A]
          @ ''3f2a9c1e GET /a  failed'' @ [CHR 0x0A])"
proof -
  have i: "requestIdx one_Logger ''3f2a9c1e'' = Some 0" "0 < length (requests one_Logger)"
    by (simp_all add: one_Logger_value)
  have m1: "example_Marshal (set_response (requests one_Logger ! 0) example_200)
      = Some ''3f2a9c1e GET /a  ok''"
    by (simp add: one_Logger_value example_Marshal_def set_response_def new_entry_def
        example_env_def UUID_String_def hex_Encode_def hex_digit_def example_GET_def example_200_def read_response_body_def read_request_body_def limit_body_def)
  have m2: "example_Marshal (set_response (requests one_Logger ! 0) example_500)
      = Some ''3f2a9c1e GET /a  failed''"
    by (simp add: one_Logger_value example_Marshal_def set_response_def new_entry_def
        example_env_def UUID_String_def hex_Encode_def hex_digit_def example_GET_def example_500_def read_response_body_def read_request_body_def limit_body_def)
  from LogResponse_overwrites_each_time[OF i m1 m2]
  show ?thesis
    by (simp add: GetRequests_def one_Logger_value set_response_def example_200_def)
qed

text \<open>
  C5 as stated fails: after a completion with status 200, a second completion of the
  same id with status 500 changes the entry to 500 and adds a third line to the file.
\<close>

theorem second_completion_counterexample:
  "map_option (map ResponseStatus \<circ> GetRequests)
     (LogResponse_seq example_Marshal one_Logger [(''3f2a9c1e'', example_200)]) = Some [200]
   \<and> map_option (map ResponseStatus \<circ> GetRequests)
     (LogResponse_seq example_Marshal one_Logger
        [(''3f2a9c1e'', example_200), (''3f2a9c1e'', example_500)]) = Some [500]
   \<and> map_option logFile
     (LogResponse_seq example_Marshal one_Logger [(''3f2a9c1e'', example_200)])
     = Some (''3f2a9c1e GET /a  '' @ [CHR 0x0A] @ ''3f2a9c1e GET /a  ok'' @ [CHR 0x0A])
   \<and> map_option logFile
     (LogResponse_seq example_Marshal one_Logger
        [(''3f2a9c1e'', example_200), (''3f2a9c1e'', example_500)])
     = Some (''3f2a9c1e GET /a  '' @ [CHR 0x0A] @ ''3f2a9c1e GET /a  ok'' @ [CHR 0x0A]
          @ ''3f2a9c1e GET /a  failed'' @ [CHR 0x0A])"
  by (simp add: one_Logger_value LogResponse_found GetRequests_def set_response_def
      example_200_def example_500_def example_Marshal_def write_line_def new_entry_def
      example_env_def UUID_String_def hex_Encode_def hex_digit_def example_GET_def read_response_body_def read_request_body_def limit_body_def)

lemma length_requests_LogRequest_seq:
  assumes "\<forall>c \<in> set cs. m (entry_of c) \<noteq> None" "cs \<noteq> []"
  shows "length (requests (LogRequest_seq m l cs)) = min 1000 (length (requests l) + length cs)"
  using requests_LogRequest_seq[OF assms, of l] by simp

lemma LogRequest_seq_last_evicts:
  assumes ok: "\<forall>c \<in> set cs. m (entry_of c) \<noteq> None" and ne: "cs \<noteq> []"
    and over: "length (requests l) + length cs > 1000"
  shows "index_consistent (LogRequest_seq m l cs) \<and> index_complete (LogRequest_seq m l cs)"
proof -
  from ne obtain cs' c where cs: "cs = cs' @ [c]"
    by (metis rev_exhaust)
  from ok cs obtain data where d: "m (new_entry (fst c) (snd c)) = Some data"
    by (auto simp: entry_of_def)
  let ?l = "LogRequest_seq m l cs'"
  have full: "length (requests ?l) \<ge> 1000"
  proof (cases "cs' = []")
    case True
    with over cs show ?thesis by simp
  next
    case False
    with ok cs have "length (requests ?l) = min 1000 (length (requests l) + length cs')"
      by (intro length_requests_LogRequest_seq) auto
    with over cs show ?thesis by simp
  qed
  have "LogRequest_seq m l cs =
      add_to_memory (?l\<lparr>logFile := write_line (write_ok (fst c)) (logFile ?l) data\<rparr>)
        (new_entry (fst c) (snd c))"
    by (simp add: cs LogRequest_seq_append LogRequest_logger d)
  moreover have "length (requests (?l\<lparr>logFile := write_line (write_ok (fst c)) (logFile ?l) data\<rparr>)) \<ge> 1000"
    using full by simp
  ultimately show ?thesis
    using add_to_memory_evict by presburger
qed

lemma hex_digit_inj:
  assumes "a < 16" and "b < 16" and "hex_digit a = hex_digit b"
  shows "a = b"
proof -
  have "distinct ''0123456789abcdef''" by simp
  moreover have "a < length ''0123456789abcdef''" "b < length ''0123456789abcdef''"
    using assms by simp_all
  ultimately show ?thesis
    using assms(3) unfolding hex_digit_def by (simp only: nth_eq_iff_index_eq)
qed

lemma hex_byte_inj:
  assumes "hex_digit (of_char x div 16) = hex_digit (of_char y div 16)"
    and "hex_digit (of_char x mod 16) = hex_digit (of_char y mod 16)"
  shows "x = y"
proof -
  have "(of_char x :: nat) < 256" "(of_char y :: nat) < 256" by simp_all
  then have "(of_char x :: nat) div 16 < 16" "(of_char y :: nat) div 16 < 16" by arith+
  then have d: "(of_char x :: nat) div 16 = of_char y div 16"
    using assms(1) by (intro hex_digit_inj)
  have "(of_char x :: nat) mod 16 < 16" "(of_char y :: nat) mod 16 < 16" by simp_all
  then have m: "(of_char x :: nat) mod 16 = of_char y mod 16"
    using assms(2) by (intro hex_digit_inj)
  from d m have "(of_char x :: nat) = of_char y"
    by (metis div_mult_mod_eq)
  then show ?thesis by simp
qed

lemma hex_Encode_inj:
  "length xs = length ys \<Longrightarrow> hex_Encode xs = hex_Encode ys \<Longrightarrow> xs = ys"
proof (induction xs ys rule: list_induct2)
  case Nil
  then show ?case by simp
next
  case (Cons x xs y ys)
  from Cons.prems have h1: "hex_digit (of_char x div 16) = hex_digit (of_char y div 16)"
    and h2: "hex_digit (of_char x mod 16) = hex_digit (of_char y mod 16)"
    and t: "hex_Encode xs = hex_Encode ys"
    by (simp_all add: hex_Encode_def)
  from h1 h2 have "x = y" by (rule hex_byte_inj)
  with t Cons.IH show ?case by simp
qed

lemma length_hex_Encode: "length (hex_Encode bs) = 2 * length bs"
  by (induction bs) (simp_all add: hex_Encode_def)

lemma take_8_UUID_String:
  "4 \<le> length u \<Longrightarrow> take 8 (UUID_String u) = hex_Encode (take 4 u)"
  by (simp add: UUID_String_def length_hex_Encode)

lemma ID_new_entry:
  "4 \<le> length (uuid_New e) \<Longrightarrow> ID (new_entry e req) = hex_Encode (take 4 (uuid_New e))"
  by (simp add: new_entry_def take_8_UUID_String)

lemma distinct_drop_append: "distinct (xs @ ys) \<Longrightarrow> distinct (drop k xs @ ys)"
  by (auto dest: in_set_dropD)

lemma LogRequest_ids_step:
  assumes "distinct (map ID (requests l) @ ID (new_entry e req) # ys)"
  shows "distinct (map ID (requests (fst (LogRequest m e l req))) @ ys)"
proof (cases "m (new_entry e req)")
  case None
  with assms show ?thesis by (simp add: LogRequest_logger)
next
  case (Some data)
  have "map ID (requests (fst (LogRequest m e l req))) =
      drop (Suc (length (requests l)) - 1000) (map ID (requests l) @ [ID (new_entry e req)])"
    by (simp add: LogRequest_logger Some requests_add_to_memory drop_map)
  moreover from assms have "distinct ((map ID (requests l) @ [ID (new_entry e req)]) @ ys)"
    by simp
  ultimately show ?thesis
    using distinct_drop_append by metis
qed

lemma LogRequest_seq_distinct:
  "distinct (map ID (requests l) @ map (\<lambda>c. ID (entry_of c)) cs) \<Longrightarrow>
   distinct (map ID (requests (LogRequest_seq m l cs)))"
proof (induction cs arbitrary: l)
  case Nil
  then show ?case by simp
next
  case (Cons c cs)
  from Cons.prems
  have "distinct (map ID (requests (fst (LogRequest m (fst c) l (snd c))))
      @ map (\<lambda>c. ID (entry_of c)) cs)"
    by (intro LogRequest_ids_step) (simp add: entry_of_def)
  from Cons.IH[OF this] show ?case by simp
qed

lemma length_uuid_prefix:
  assumes "\<forall>c \<in> set cs. length (uuid_New (fst c)) = 16"
    and "x \<in> set (map (\<lambda>c. take 4 (uuid_New (fst c))) cs)"
  shows "length x = 4"
proof -
  from assms(2) have "x \<in> (\<lambda>c. take 4 (uuid_New (fst c))) ` set cs"
    by (simp only: set_map)
  then obtain c where c: "c \<in> set cs" and x: "x = take 4 (uuid_New (fst c))"
    by (rule imageE)
  from assms(1) c have "length (uuid_New (fst c)) = 16"
    by (rule bspec)
  with x show ?thesis by simp
qed

lemma ids_of_calls:
  assumes "\<forall>c \<in> set cs. length (uuid_New (fst c)) = 16"
  shows "map (\<lambda>c. ID (entry_of c)) cs = map hex_Encode (map (\<lambda>c. take 4 (uuid_New (fst c))) cs)"
  using assms
proof (induction cs)
  case Nil
  then show ?case by simp
next
  case (Cons c cs)
  from Cons.prems have "length (uuid_New (fst c)) = 16" by simp
  then have "ID (entry_of c) = hex_Encode (take 4 (uuid_New (fst c)))"
    by (simp add: entry_of_def ID_new_entry)
  moreover from Cons have "map (\<lambda>c. ID (entry_of c)) cs
      = map hex_Encode (map (\<lambda>c. take 4 (uuid_New (fst c))) cs)"
    by simp
  ultimately show ?case by simp
qed

lemma distinct_ids_of_calls:
  assumes "\<forall>c \<in> set cs. length (uuid_New (fst c)) = 16"
    and "distinct (map (\<lambda>c. take 4 (uuid_New (fst c))) cs)"
  shows "distinct (map (\<lambda>c. ID (entry_of c)) cs)"
proof -
  have "inj_on hex_Encode (set (map (\<lambda>c. take 4 (uuid_New (fst c))) cs))"
  proof (rule inj_onI)
    fix x y
    assume "x \<in> set (map (\<lambda>c. take 4 (uuid_New (fst c))) cs)"
      and "y \<in> set (map (\<lambda>c. take 4 (uuid_New (fst c))) cs)"
      and h: "hex_Encode x = hex_Encode y"
    then have "length x = 4" "length y = 4"
      using assms(1) by (simp_all only: length_uuid_prefix)
    then have "length x = length y" by simp
    then show "x = y" using h by (rule hex_Encode_inj)
  qed
  with assms(2) have "distinct (map hex_Encode (map (\<lambda>c. take 4 (uuid_New (fst c))) cs))"
    by (simp only: distinct_map simp_thms)
  then show ?thesis
    by (simp only: ids_of_calls[OF assms(1)])
qed

text \<open>
  C2, as amended. The id of an entry is the first four bytes of the UUID in hexadecimal,
  eight characters, and no call compares it with the ids already retained: the ids in
  the slice are pairwise distinct whenever the retained ids are, the UUIDs of the calls
  differ in their first four bytes, and none of the new ids is retained already.
\<close>

theorem ids_distinct_when_uuid_prefixes_distinct:
  assumes "distinct (map ID (requests l))"
    and "\<forall>c \<in> set cs. length (uuid_New (fst c)) = 16"
    and "distinct (map (\<lambda>c. take 4 (uuid_New (fst c))) cs)"
    and "\<forall>c \<in> set cs. ID (entry_of c) \<notin> ID ` set (requests l)"
  shows "distinct (map ID (GetRequests (LogRequest_seq m l cs)))
       \<and> (\<forall>c \<in> set cs. ID (entry_of c) = hex_Encode (take 4 (uuid_New (fst c)))
             \<and> length (ID (entry_of c)) = 8)"
proof -
  have "distinct (map (\<lambda>c. ID (entry_of c)) cs)"
    using assms(2,3) by (rule distinct_ids_of_calls)
  moreover have "set (map ID (requests l)) \<inter> set (map (\<lambda>c. ID (entry_of c)) cs) = {}"
  proof (rule equals0I)
    fix x
    assume "x \<in> set (map ID (requests l)) \<inter> set (map (\<lambda>c. ID (entry_of c)) cs)"
    then have x1: "x \<in> ID ` set (requests l)" and x2: "x \<in> (\<lambda>c. ID (entry_of c)) ` set cs"
      by simp_all
    from x2 obtain c where c: "c \<in> set cs" and xc: "x = ID (entry_of c)"
      by (rule imageE)
    from assms(4) c have "ID (entry_of c) \<notin> ID ` set (requests l)"
      by (rule bspec)
    with x1 xc show False by simp
  qed
  ultimately have "distinct (map ID (requests l) @ map (\<lambda>c. ID (entry_of c)) cs)"
    using assms(1) by simp
  then have "distinct (map ID (requests (LogRequest_seq m l cs)))"
    by (rule LogRequest_seq_distinct)
  moreover have "\<forall>c \<in> set cs. ID (entry_of c) = hex_Encode (take 4 (uuid_New (fst c)))
      \<and> length (ID (entry_of c)) = 8"
  proof
    fix c
    assume "c \<in> set cs"
    with assms(2) have "length (uuid_New (fst c)) = 16" by (rule bspec)
    then show "ID (entry_of c) = hex_Encode (take 4 (uuid_New (fst c)))
      \<and> length (ID (entry_of c)) = 8"
      by (simp add: entry_of_def ID_new_entry length_hex_Encode)
  qed
  ultimately show ?thesis
    unfolding GetRequests_def by (rule conjI)
qed

lemma example_ids:
  "ID (entry_of (example_env, r)) = ''3f2a9c1e''"
  "ID (entry_of (other_env, r)) = ''3f2a9c1e''"
  "ID (entry_of (third_env, r)) = ''9d4e1f70''"
  by (simp_all add: entry_of_def new_entry_def example_env_def other_env_def third_env_def
      UUID_String_def hex_Encode_def hex_digit_def)

theorem ids_distinct_when_uuid_prefixes_distinct_witness:
  "distinct (map ID (GetRequests (LogRequest_seq example_Marshal empty_Logger
      [(example_env, example_GET), (third_env, example_POST)])))
   \<and> ID (entry_of (example_env, example_GET)) = ''3f2a9c1e''
   \<and> ID (entry_of (third_env, example_POST)) = ''9d4e1f70''"
proof -
  let ?cs = "[(example_env, example_GET), (third_env, example_POST)]"
  have a: "distinct (map ID (requests empty_Logger))"
    by (simp add: empty_Logger_def)
  have b: "\<forall>c \<in> set ?cs. length (uuid_New (fst c)) = 16"
    by (simp add: example_env_def third_env_def)
  have c: "distinct (map (\<lambda>c. take 4 (uuid_New (fst c))) ?cs)"
    by (simp add: example_env_def third_env_def)
  have d: "\<forall>c \<in> set ?cs. ID (entry_of c) \<notin> ID ` set (requests empty_Logger)"
    by (simp add: empty_Logger_def)
  from ids_distinct_when_uuid_prefixes_distinct[OF a b c d, of example_Marshal]
  show ?thesis by (simp add: example_ids)
qed

text \<open>
  C2 as stated fails: two calls whose UUIDs differ but share their first four bytes
  leave two entries with the same id in the slice.
\<close>

theorem same_uuid_prefix_counterexample:
  "uuid_New example_env \<noteq> uuid_New other_env
   \<and> map ID (GetRequests (LogRequest_seq example_Marshal empty_Logger
        [(example_env, example_GET), (other_env, example_POST)])) = [''3f2a9c1e'', ''3f2a9c1e'']
   \<and> \<not> distinct (map ID (GetRequests (LogRequest_seq example_Marshal empty_Logger
        [(example_env, example_GET), (other_env, example_POST)])))"
proof -
  have "map ID (GetRequests (LogRequest_seq example_Marshal empty_Logger
        [(example_env, example_GET), (other_env, example_POST)]))
      = [ID (entry_of (example_env, example_GET)), ID (entry_of (other_env, example_POST))]"
    by (simp add: GetRequests_def LogRequest_logger example_Marshal_def requests_add_to_memory
      empty_Logger_def entry_of_def)
  then show ?thesis
    by (simp add: example_ids) (simp add: example_env_def other_env_def)
qed

lemma index_exact:
  assumes "index_consistent l" and "index_complete l"
    and "distinct (map ID (requests l))" and "i < length (requests l)"
  shows "requestIdx l (ID (requests l ! i)) = Some i"
proof -
  from assms(4) have "ID (requests l ! i) \<in> ID ` set (requests l)"
    by simp
  with assms(2) have "ID (requests l ! i) \<in> dom (requestIdx l)"
    by (simp only: index_complete_def)
  then obtain j where j: "requestIdx l (ID (requests l ! i)) = Some j"
    by (auto dest: domD)
  with assms(1) have "j < length (requests l)" and "ID (requests l ! j) = ID (requests l ! i)"
    by (simp_all add: index_consistent_def)
  with assms(4) have "map ID (requests l) ! j = map ID (requests l) ! i"
    and "j < length (map ID (requests l))" and "i < length (map ID (requests l))"
    by simp_all
  with assms(3) have "j = i"
    by (simp only: nth_eq_iff_index_eq)
  with j show ?thesis by simp
qed

text \<open>
  C3. When every entry can be marshalled, a sequence of \<open>LogRequest\<close> calls leaves at
  most 1000 entries in the slice (from any logger once a call has been made, and from
  a logger within the bound after no call at all); after 1500 calls \<open>GetRequests\<close>
  returns the entries of the last 1000 calls, in call order; when the last call has cut
  the slice, the index is consistent with the retained entries and holds the id of each
  of them, which is the position of the entry when the retained ids are distinct; and a
  consistent index stays consistent.
\<close>

theorem working_set_keeps_last_1000:
  assumes "\<forall>c \<in> set cs. m (entry_of c) \<noteq> None"
  shows "(cs \<noteq> [] \<or> length (requests l) \<le> 1000 \<longrightarrow>
            length (GetRequests (LogRequest_seq m l cs)) \<le> 1000)
       \<and> (length cs = 1500 \<longrightarrow>
            GetRequests (LogRequest_seq m l cs) = drop 500 (map entry_of cs))
       \<and> (cs \<noteq> [] \<and> length (requests l) + length cs > 1000 \<longrightarrow>
            index_consistent (LogRequest_seq m l cs) \<and> index_complete (LogRequest_seq m l cs)
            \<and> (distinct (map ID (GetRequests (LogRequest_seq m l cs))) \<longrightarrow>
                 (\<forall>i < length (GetRequests (LogRequest_seq m l cs)).
                    requestIdx (LogRequest_seq m l cs)
                      (ID (GetRequests (LogRequest_seq m l cs) ! i)) = Some i)))
       \<and> (index_consistent l \<longrightarrow> index_consistent (LogRequest_seq m l cs))"
proof (intro conjI impI allI)
  assume "cs \<noteq> [] \<or> length (requests l) \<le> 1000"
  then show "length (GetRequests (LogRequest_seq m l cs)) \<le> 1000"
    using length_requests_LogRequest_seq[OF assms, of l]
    by (cases "cs = []") (auto simp: GetRequests_def)
next
  assume len: "length cs = 1500"
  then have "cs \<noteq> []" by auto
  from requests_LogRequest_seq[OF assms this, of l] len
  show "GetRequests (LogRequest_seq m l cs) = drop 500 (map entry_of cs)"
    by (simp add: GetRequests_def)
next
  assume "cs \<noteq> [] \<and> length (requests l) + length cs > 1000"
  with LogRequest_seq_last_evicts[OF assms, of l]
  show "index_consistent (LogRequest_seq m l cs)" "index_complete (LogRequest_seq m l cs)"
    by simp_all
next
  fix i
  assume over: "cs \<noteq> [] \<and> length (requests l) + length cs > 1000"
    and d: "distinct (map ID (GetRequests (LogRequest_seq m l cs)))"
    and i: "i < length (GetRequests (LogRequest_seq m l cs))"
  from over LogRequest_seq_last_evicts[OF assms, of l]
  have "index_consistent (LogRequest_seq m l cs)" "index_complete (LogRequest_seq m l cs)"
    by simp_all
  then show "requestIdx (LogRequest_seq m l cs) (ID (GetRequests (LogRequest_seq m l cs) ! i)) = Some i"
    using d i unfolding GetRequests_def by (rule index_exact)
next
  assume "index_consistent l"
  then show "index_consistent (LogRequest_seq m l cs)"
    by (rule LogRequest_seq_consistent)
qed

lemma example_calls_marshal: "\<forall>c \<in> set example_calls. example_Marshal (entry_of c) \<noteq> None"
  by (simp add: example_Marshal_def)

lemma example_calls_length: "length example_calls = 1500"
  by (simp only: example_calls_def length_map length_upt)

lemma example_calls_nth:
  "n < 1500 \<Longrightarrow> example_calls ! n = (numbered_env n, example_GET)"
  by (simp only: example_calls_def) (simp only: nth_map length_upt nth_upt, simp)

lemma example_calls_uuid_length: "\<forall>c \<in> set example_calls. length (uuid_New (fst c)) = 16"
proof
  fix c
  assume "c \<in> set example_calls"
  then have "c \<in> (\<lambda>n. (numbered_env n, example_GET)) ` set [0..<1500]"
    by (simp only: example_calls_def set_map)
  then obtain n where "c = (numbered_env n, example_GET)"
    by (rule imageE)
  then show "length (uuid_New (fst c)) = 16"
    by (simp add: numbered_env_def example_env_def)
qed

lemma numbered_prefix_inj:
  assumes "n < 1500" and "k < 1500"
    and "take 4 (uuid_New (numbered_env n)) = take 4 (uuid_New (numbered_env k))"
  shows "n = k"
proof -
  from assms(3) have c: "(char_of (n div 256) :: char) = char_of (k div 256)"
    "(char_of (n mod 256) :: char) = char_of (k mod 256)"
    by (simp_all add: numbered_env_def example_env_def)
  from assms(1,2) have "n div 256 < 256" "k div 256 < 256" by arith+
  with c(1) have d: "n div 256 = k div 256"
    by (simp add: char_of_eq_iff take_bit_eq_mod)
  from c(2) have "n mod 256 = k mod 256"
    by (simp add: char_of_eq_iff take_bit_eq_mod)
  with d show ?thesis
    by (metis div_mult_mod_eq)
qed

lemma example_calls_distinct_prefixes:
  "distinct (map (\<lambda>c. take 4 (uuid_New (fst c))) example_calls)"
proof -
  have "map (\<lambda>c. take 4 (uuid_New (fst c))) example_calls
      = map (\<lambda>n. take 4 (uuid_New (numbered_env n))) [0..<1500]"
    by (simp only: example_calls_def map_map comp_def fst_conv)
  moreover have "inj_on (\<lambda>n. take 4 (uuid_New (numbered_env n))) (set [0..<1500])"
  proof (rule inj_onI)
    fix n k
    assume "n \<in> set [0..<1500]" and "k \<in> set [0..<1500]"
    then have "n < 1500" "k < 1500" by (simp_all only: set_upt atLeastLessThan_iff)
    moreover assume "take 4 (uuid_New (numbered_env n)) = take 4 (uuid_New (numbered_env k))"
    ultimately show "n = k" by (rule numbered_prefix_inj)
  qed
  ultimately show ?thesis
    by (simp only: distinct_map distinct_upt simp_thms)
qed

theorem working_set_keeps_last_1000_witness:
  "length (GetRequests (LogRequest_seq example_Marshal empty_Logger example_calls)) \<le> 1000
   \<and> GetRequests (LogRequest_seq example_Marshal empty_Logger example_calls)
       = drop 500 (map entry_of example_calls)
   \<and> length (drop 500 (map entry_of example_calls)) = 1000
   \<and> index_consistent (LogRequest_seq example_Marshal empty_Logger example_calls)
   \<and> index_complete (LogRequest_seq example_Marshal empty_Logger example_calls)
   \<and> requestIdx (LogRequest_seq example_Marshal empty_Logger example_calls)
        (ID (GetRequests (LogRequest_seq example_Marshal empty_Logger example_calls) ! 0)) = Some 0
   \<and> ID (GetRequests (LogRequest_seq example_Marshal empty_Logger example_calls) ! 0) = ''01f49c1e''"
proof -
  let ?L = "LogRequest_seq example_Marshal empty_Logger example_calls"
  have ne: "example_calls \<noteq> []"
    using example_calls_length by auto
  have over: "length (requests empty_Logger) + length example_calls > 1000"
    by (simp add: example_calls_length)
  have "distinct (map (\<lambda>c. ID (entry_of c)) example_calls)"
    using example_calls_uuid_length example_calls_distinct_prefixes
    by (rule distinct_ids_of_calls)
  then have "distinct (map ID (requests empty_Logger) @ map (\<lambda>c. ID (entry_of c)) example_calls)"
    by (simp add: empty_Logger_def)
  then have "distinct (map ID (requests ?L))"
    by (rule LogRequest_seq_distinct)
  then have d: "distinct (map ID (GetRequests ?L))"
    by (simp only: GetRequests_def)
  note w = working_set_keeps_last_1000[OF example_calls_marshal, of empty_Logger]
  from w ne over have p: "length (GetRequests ?L) \<le> 1000"
    "GetRequests ?L = drop 500 (map entry_of example_calls)"
    "index_consistent ?L" "index_complete ?L"
    by (simp_all add: example_calls_length)
  have len: "length (GetRequests ?L) = 1000"
    by (simp add: p(2) example_calls_length)
  from w ne over d have "\<forall>i < length (GetRequests ?L). requestIdx ?L (ID (GetRequests ?L ! i)) = Some i"
    by blast
  with len have z: "requestIdx ?L (ID (GetRequests ?L ! 0)) = Some 0"
    by simp
  have "GetRequests ?L ! 0 = entry_of (numbered_env 500, example_GET)"
    by (simp add: p(2) example_calls_length example_calls_nth)
  then have id: "ID (GetRequests ?L ! 0) = ''01f49c1e''"
    by (simp add: entry_of_def new_entry_def numbered_env_def example_env_def UUID_String_def
        hex_Encode_def hex_digit_def)
  from p z id show ?thesis
    by (simp add: example_calls_length)
qed

lemma canonical_byte_to_lower: "canonical_byte u (to_lower c) = canonical_byte u c"
proof (cases "is_upper c")
  case False
  then show ?thesis by (simp add: to_lower_def)
next
  case True
  then have r: "(65::nat) \<le> of_char c" "of_char c \<le> (90::nat)"
    by (simp_all add: is_upper_def)
  let ?d = "char_of (of_char c + (32::nat)) :: char"
  have d: "(of_char ?d :: nat) = of_char c + 32"
    using r by simp
  have low: "is_lower ?d" "\<not> is_upper ?d" "\<not> is_lower c"
    using r by (simp_all add: is_lower_def is_upper_def d)
  have undo: "char_of (of_char ?d - (32::nat)) = c"
    by (simp only: d) simp
  show ?thesis
    using True low undo by (cases u) (simp_all add: canonical_byte_def to_lower_def to_upper_def)
qed

lemma canonical_from_to_lower: "canonical_from u (map to_lower n) = canonical_from u n"
  by (induction n arbitrary: u) (simp_all add: canonical_byte_to_lower)

lemma valid_of_to_lower:
  assumes "validHeaderFieldByte (to_lower c)"
  shows "validHeaderFieldByte c"
proof (cases "is_upper c")
  case True
  then show ?thesis by (simp only: validHeaderFieldByte_def simp_thms)
next
  case False
  then have "to_lower c = c" by (simp only: to_lower_def if_False)
  with assms show ?thesis by (simp only:)
qed

lemma valid_of_lower_name:
  "list_all validHeaderFieldByte (map to_lower n) \<Longrightarrow> list_all validHeaderFieldByte n"
proof (induction n)
  case Nil
  then show ?case by simp
next
  case (Cons c n)
  from Cons.prems have "validHeaderFieldByte (to_lower c)"
    and "list_all validHeaderFieldByte (map to_lower n)"
    by simp_all
  from this(1) have "validHeaderFieldByte c" by (rule valid_of_to_lower)
  moreover from \<open>list_all validHeaderFieldByte (map to_lower n)\<close>
  have "list_all validHeaderFieldByte n" by (rule Cons.IH)
  ultimately show ?case by simp
qed

lemma listed_valid:
  "list_all validHeaderFieldByte ''authorization''"
  "list_all validHeaderFieldByte ''x-api-key''"
  "list_all validHeaderFieldByte ''api-key''"
  by (simp_all add: validHeaderFieldByte_def is_lower_def)

lemma listed_canonical:
  "canonical_from True ''authorization'' = ''Authorization''"
  "canonical_from True ''x-api-key'' = ''X-Api-Key''"
  "canonical_from True ''api-key'' = ''Api-Key''"
  by code_simp+

lemma canonical_key_of_lower:
  assumes "map to_lower name = lower" and "list_all validHeaderFieldByte lower"
  shows "CanonicalMIMEHeaderKey name = canonical_from True lower"
proof -
  from assms have "list_all validHeaderFieldByte (map to_lower name)"
    by simp
  then have "list_all validHeaderFieldByte name"
    by (rule valid_of_lower_name)
  then have "CanonicalMIMEHeaderKey name = canonical_from True name"
    by (simp add: CanonicalMIMEHeaderKey_def)
  also have "\<dots> = canonical_from True (map to_lower name)"
    by (simp only: canonical_from_to_lower)
  finally show ?thesis by (simp only: assms(1))
qed

lemma canonical_key_listed:
  assumes "map to_lower name = ''authorization'' \<or> map to_lower name = ''x-api-key''
      \<or> map to_lower name = ''api-key''"
  shows "CanonicalMIMEHeaderKey name = ''Authorization'' \<or> CanonicalMIMEHeaderKey name = ''X-Api-Key''
      \<or> CanonicalMIMEHeaderKey name = ''Api-Key''"
proof -
  from assms consider "map to_lower name = ''authorization''" | "map to_lower name = ''x-api-key''"
    | "map to_lower name = ''api-key''"
    by blast
  then show ?thesis
  proof cases
    case 1
    from canonical_key_of_lower[OF this listed_valid(1)]
    have "CanonicalMIMEHeaderKey name = ''Authorization''"
      by (simp only: listed_canonical)
    then show ?thesis by simp
  next
    case 2
    from canonical_key_of_lower[OF this listed_valid(2)]
    have "CanonicalMIMEHeaderKey name = ''X-Api-Key''"
      by (simp only: listed_canonical)
    then show ?thesis by simp
  next
    case 3
    from canonical_key_of_lower[OF this listed_valid(3)]
    have "CanonicalMIMEHeaderKey name = ''Api-Key''"
      by (simp only: listed_canonical)
    then show ?thesis by simp
  qed
qed

lemma redact_headers_update:
  assumes "key = ''Authorization'' \<or> key = ''X-Api-Key'' \<or> key = ''Api-Key''"
    and "hdr key = Some (v # vs)"
  shows "redact_headers (hdr(key \<mapsto> w # ws)) = redact_headers hdr"
  using assms by (auto simp: redact_headers_def fun_eq_iff)

lemma new_entry_header_update:
  assumes "key = ''Authorization'' \<or> key = ''X-Api-Key'' \<or> key = ''Api-Key''"
    and "req_Header req key = Some (v # vs)"
  shows "new_entry e (req\<lparr>req_Header := (req_Header req)(key \<mapsto> w # ws)\<rparr>) = new_entry e req"
proof -
  have "redact_headers ((req_Header req)(key \<mapsto> w # ws)) = redact_headers (req_Header req)"
    using assms by (rule redact_headers_update)
  then show ?thesis
    by (simp add: new_entry_def read_request_body_def split: option.splits)
qed

text \<open>
  C1. For a request whose header keys are canonical, as \<open>net/http\<close> stores them, every
  header whose name is \<open>authorization\<close>, \<open>x-api-key\<close> or \<open>api-key\<close> in any mix of cases
  is logged as \<open>[REDACTED]\<close>: in the entry returned, and in the entry stored, which is
  the entry returned, while the line appended to the file is the encoding of that
  entry. The logger after the call and the entry are the same whatever the values of
  that header are, so the cleartext is in none of them.
\<close>

theorem LogRequest_redacts_sensitive_headers:
  assumes "canonical_Header (req_Header req)"
    and "map to_lower key = ''authorization'' \<or> map to_lower key = ''x-api-key''
      \<or> map to_lower key = ''api-key''"
    and "req_Header req key = Some (v # vs)"
  shows "Headers (snd (snd (LogRequest m e l req))) key = Some ''[REDACTED]''
       \<and> (\<forall>data. m (new_entry e req) = Some data \<longrightarrow>
            last (GetRequests (fst (LogRequest m e l req))) = snd (snd (LogRequest m e l req))
            \<and> Headers (last (GetRequests (fst (LogRequest m e l req)))) key = Some ''[REDACTED]''
            \<and> logFile (fst (LogRequest m e l req)) = write_line (write_ok e) (logFile l) data)
       \<and> (\<forall>w ws.
            fst (LogRequest m e l (req\<lparr>req_Header := (req_Header req)(key \<mapsto> w # ws)\<rparr>))
              = fst (LogRequest m e l req)
            \<and> snd (snd (LogRequest m e l (req\<lparr>req_Header := (req_Header req)(key \<mapsto> w # ws)\<rparr>)))
              = snd (snd (LogRequest m e l req)))"
proof -
  from assms(3) have "key \<in> dom (req_Header req)"
    by (rule domI)
  with assms(1) have "CanonicalMIMEHeaderKey key = key"
    by (simp only: canonical_Header_def)
  with canonical_key_listed[OF assms(2)]
  have k: "key = ''Authorization'' \<or> key = ''X-Api-Key'' \<or> key = ''Api-Key''"
    by simp
  have h: "Headers (new_entry e req) key = Some ''[REDACTED]''"
    using k assms(3) by (auto simp: new_entry_def redact_headers_def)
  have p1: "Headers (snd (snd (LogRequest m e l req))) key = Some ''[REDACTED]''"
    using h by (simp add: LogRequest_entry)
  have p2: "last (GetRequests (fst (LogRequest m e l req))) = snd (snd (LogRequest m e l req))
      \<and> Headers (last (GetRequests (fst (LogRequest m e l req)))) key = Some ''[REDACTED]''
      \<and> logFile (fst (LogRequest m e l req)) = write_line (write_ok e) (logFile l) data"
    if "m (new_entry e req) = Some data" for data
    using that h by (simp add: LogRequest_stored LogRequest_file LogRequest_entry)
  have p3: "fst (LogRequest m e l (req\<lparr>req_Header := (req_Header req)(key \<mapsto> w # ws)\<rparr>))
              = fst (LogRequest m e l req)
            \<and> snd (snd (LogRequest m e l (req\<lparr>req_Header := (req_Header req)(key \<mapsto> w # ws)\<rparr>)))
              = snd (snd (LogRequest m e l req))" for w ws
    using new_entry_header_update[OF k assms(3), of e w ws]
    by (simp add: LogRequest_entry LogRequest_logger split: option.splits)
  from p1 p2 p3 show ?thesis by blast
qed

lemma example_GET_canonical: "canonical_Header (req_Header example_GET)"
proof -
  have "CanonicalMIMEHeaderKey ''Authorization'' = ''Authorization''"
    by code_simp
  then show ?thesis
    by (simp add: canonical_Header_def example_GET_def)
qed

lemma example_GET_name: "map to_lower ''Authorization'' = ''authorization''"
  by code_simp

theorem LogRequest_redacts_sensitive_headers_witness:
  "Headers (snd (snd (LogRequest example_Marshal example_env empty_Logger example_GET)))
      ''Authorization'' = Some ''[REDACTED]''
   \<and> Headers (last (GetRequests (fst (LogRequest example_Marshal example_env empty_Logger example_GET))))
      ''Authorization'' = Some ''[REDACTED]''
   \<and> logFile (fst (LogRequest example_Marshal example_env empty_Logger example_GET))
      = ''3f2a9c1e GET /a  '' @ [CHR 0x0A]
   \<and> fst (LogRequest example_Marshal example_env empty_Logger
        (example_GET\<lparr>req_Header := (req_Header example_GET)(''Authorization'' \<mapsto> [''Bearer other''])\<rparr>))
      = fst (LogRequest example_Marshal example_env empty_Logger example_GET)"
proof -
  have k: "map to_lower ''Authorization'' = ''authorization'' \<or> map to_lower ''Authorization'' = ''x-api-key''
      \<or> map to_lower ''Authorization'' = ''api-key''"
    by (simp only: example_GET_name simp_thms)
  have v: "req_Header example_GET ''Authorization'' = Some [''Bearer secret123'']"
    by (simp add: example_GET_def)
  have d: "example_Marshal (new_entry example_env example_GET) = Some ''3f2a9c1e GET /a  ''"
    by (simp add: example_Marshal_def new_entry_def example_env_def UUID_String_def hex_Encode_def
        hex_digit_def example_GET_def read_request_body_def)
  have w: "write_line (write_ok example_env) (logFile empty_Logger) ''3f2a9c1e GET /a  ''
      = ''3f2a9c1e GET /a  '' @ [CHR 0x0A]"
    by (simp add: write_line_def example_env_def empty_Logger_def)
  from LogRequest_redacts_sensitive_headers[OF example_GET_canonical k v,
      of example_Marshal example_env empty_Logger] d w
  show ?thesis
    by simp
qed

lemma splitLines_from_line:
  "CHR 0x0A \<notin> set line \<Longrightarrow>
   splitLines_from cur (line @ CHR 0x0A # rest) = (cur @ line) # splitLines_from [] rest"
  by (induction line arbitrary: cur) auto

lemma splitLines_terminated:
  "\<forall>line \<in> set lines. CHR 0x0A \<notin> set line \<Longrightarrow>
   splitLines (concat (map (\<lambda>line. line @ [CHR 0x0A]) lines)) = lines"
  unfolding splitLines_def
  by (induction lines) (simp_all add: splitLines_from_line)

lemma load_lines_map_filter:
  "load_lines u lines reqs =
     reqs @ List.map_filter (\<lambda>line. if line = [] then None else u line) lines"
  by (induction lines arbitrary: reqs) (auto simp: List.map_filter_simps split: option.splits)

lemma loadExistingLogs_requests:
  "requests (snd (loadExistingLogs u (Data file) l)) =
     requests l @ List.map_filter (\<lambda>line. if line = [] then None else u line) (splitLines file)"
  by (simp add: loadExistingLogs_def load_lines_map_filter)

lemma loadExistingLogs_requestIdx: "requestIdx (snd (loadExistingLogs u rf l)) = requestIdx l"
  by (simp add: loadExistingLogs_def split: read_result.splits)

lemma NewLogger_Data:
  "NewLogger u (Some file) (Data file) =
     Some \<lparr>requests = List.map_filter (\<lambda>line. if line = [] then None else u line) (splitLines file),
           requestIdx = Map.empty, logFile = file\<rparr>"
  by (simp add: NewLogger_def fresh_Logger_def loadExistingLogs_def load_lines_map_filter)

lemma map_filter_replicate:
  "f x = Some y \<Longrightarrow> List.map_filter f (replicate n x) = replicate n y"
  by (induction n) (simp_all add: List.map_filter_simps)

text \<open>
  C4 at two files. From a file of 1001 well-formed lines \<open>NewLogger\<close> keeps 1001
  entries, and its index is empty; from a file of one well-formed line it keeps the
  entry, and the index does not hold the entry's id.
\<close>

theorem restore_unbounded_and_unindexed:
  "map_option (length \<circ> GetRequests)
     (NewLogger example_Unmarshal (Some (concat (replicate 1001 (''{}'' @ [CHR 0x0A]))))
        (Data (concat (replicate 1001 (''{}'' @ [CHR 0x0A]))))) = Some 1001
   \<and> map_option requestIdx
     (NewLogger example_Unmarshal (Some (concat (replicate 1001 (''{}'' @ [CHR 0x0A]))))
        (Data (concat (replicate 1001 (''{}'' @ [CHR 0x0A]))))) = Some Map.empty
   \<and> map_option GetRequests
     (NewLogger example_Unmarshal (Some (''{}'' @ [CHR 0x0A])) (Data (''{}'' @ [CHR 0x0A])))
       = Some [zero_RequestLog]
   \<and> map_option requestIdx
     (NewLogger example_Unmarshal (Some (''{}'' @ [CHR 0x0A])) (Data (''{}'' @ [CHR 0x0A])))
       = Some Map.empty"
proof -
  have "splitLines (concat (map (\<lambda>line. line @ [CHR 0x0A]) (replicate 1001 ''{}'')))
      = replicate 1001 ''{}''"
    by (rule splitLines_terminated) simp
  then have "splitLines (concat (replicate 1001 (''{}'' @ [CHR 0x0A]))) = replicate 1001 ''{}''"
    by simp
  moreover have "List.map_filter (\<lambda>line. if line = [] then None else example_Unmarshal line)
      (replicate 1001 ''{}'') = replicate 1001 zero_RequestLog"
    by (rule map_filter_replicate) (simp add: example_Unmarshal_def)
  ultimately have big: "NewLogger example_Unmarshal (Some (concat (replicate 1001 (''{}'' @ [CHR 0x0A]))))
        (Data (concat (replicate 1001 (''{}'' @ [CHR 0x0A]))))
      = Some \<lparr>requests = replicate 1001 zero_RequestLog, requestIdx = Map.empty,
           logFile = concat (replicate 1001 (''{}'' @ [CHR 0x0A]))\<rparr>"
    by (simp only: NewLogger_Data)
  have small: "NewLogger example_Unmarshal (Some (''{}'' @ [CHR 0x0A])) (Data (''{}'' @ [CHR 0x0A]))
      = Some \<lparr>requests = [zero_RequestLog], requestIdx = Map.empty, logFile = ''{}'' @ [CHR 0x0A]\<rparr>"
    by (simp add: NewLogger_Data splitLines_def example_Unmarshal_def List.map_filter_simps)
  show ?thesis
    by (simp only: big small) (simp add: GetRequests_def)
qed

lemma LogResponse_consistent:
  assumes "index_consistent l"
  shows "\<exists>l' resp'. LogResponse m w l k resp = Some (l', resp') \<and> index_consistent l'
           \<and> length (requests l') = length (requests l) \<and> requestIdx l' = requestIdx l"
proof (cases resp)
  case None
  with assms show ?thesis by (simp add: LogResponse_def)
next
  case (Some r)
  show ?thesis
  proof (cases "requestIdx l k")
    case None
    with assms Some show ?thesis by (simp add: LogResponse_def)
  next
    case (Some idx)
    with assms have i: "idx < length (requests l)"
      by (simp add: index_consistent_def)
    have "ID (set_response x r) = ID x" for x
      by (simp add: set_response_def)
    then have "ID ((requests l)[idx := set_response (requests l ! idx) r] ! j) = ID (requests l ! j)"
      if "j < length (requests l)" for j
      using that by (cases "j = idx") simp_all
    with assms have "index_consistent
        (l\<lparr>requests := (requests l)[idx := set_response (requests l ! idx) r], logFile := f\<rparr>)" for f
      by (simp add: index_consistent_def)
    with \<open>resp = Some r\<close> Some i show ?thesis
      by (simp add: LogResponse_found)
  qed
qed

lemma fresh_Logger_consistent: "index_consistent (fresh_Logger file)"
  by (simp add: index_consistent_def fresh_Logger_def)

lemma index_consistent_append:
  assumes "index_consistent l" and "requestIdx l' = requestIdx l"
    and "requests l' = requests l @ xs"
  shows "index_consistent l'"
  unfolding index_consistent_def
proof (intro allI impI)
  fix k i
  assume "requestIdx l' k = Some i"
  with assms(2) have "requestIdx l k = Some i" by simp
  with assms(1) have "i < length (requests l)" and "ID (requests l ! i) = k"
    by (simp_all add: index_consistent_def)
  then show "i < length (requests l') \<and> ID (requests l' ! i) = k"
    by (simp add: assms(3) nth_append)
qed

lemma loadExistingLogs_consistent:
  assumes "index_consistent l"
  shows "index_consistent (snd (loadExistingLogs u rf l))"
proof (cases rf)
  case (Data data)
  have "requests (snd (loadExistingLogs u (Data data) l)) = requests l @
      List.map_filter (\<lambda>line. if line = [] then None else u line) (splitLines data)"
    by (rule loadExistingLogs_requests)
  with assms show ?thesis
    unfolding Data by (rule index_consistent_append[OF _ loadExistingLogs_requestIdx])
next
  case NotExist
  with assms show ?thesis by (simp add: loadExistingLogs_def)
next
  case ReadError
  with assms show ?thesis by (simp add: loadExistingLogs_def)
qed

lemma one_Logger_consistent: "index_consistent one_Logger"
  using example_ids(1)[of example_GET]
  by (simp add: index_consistent_def one_Logger_value entry_of_def)

text \<open>
  With a consistent index \<open>LogResponse\<close> never reaches the panic of an index out of
  range: it returns, and leaves the index and the length of the slice as they were and
  the index consistent.
\<close>

theorem LogResponse_returns_when_consistent:
  assumes "index_consistent l"
  shows "\<exists>l' resp'. LogResponse m w l k resp = Some (l', resp') \<and> index_consistent l'
           \<and> length (requests l') = length (requests l) \<and> requestIdx l' = requestIdx l"
  using assms by (rule LogResponse_consistent)

theorem LogResponse_returns_when_consistent_witness:
  "\<exists>l' resp'. LogResponse example_Marshal True one_Logger ''3f2a9c1e'' (Some example_200) = Some (l', resp')
      \<and> index_consistent l' \<and> length (requests l') = 1 \<and> requestIdx l' = [''3f2a9c1e'' \<mapsto> 0]"
  using LogResponse_returns_when_consistent[OF one_Logger_consistent,
      of example_Marshal True "''3f2a9c1e''" "Some example_200"]
  by (simp add: one_Logger_value)

text \<open>
  Every logger that \<open>NewLogger\<close> returns has a consistent index, and so has the
  logger after any sequence of \<open>LogRequest\<close> calls on it.
\<close>

theorem index_consistent_from_start:
  assumes "NewLogger u opened rf = Some l0"
  shows "index_consistent l0 \<and> index_consistent (LogRequest_seq m l0 cs)"
proof -
  from assms obtain f where "l0 = snd (loadExistingLogs u rf (fresh_Logger f))"
    by (auto simp: NewLogger_def split: option.splits)
  then have "index_consistent l0"
    by (simp add: loadExistingLogs_consistent fresh_Logger_consistent)
  then show ?thesis
    by (simp add: LogRequest_seq_consistent)
qed

theorem index_consistent_from_start_witness:
  "index_consistent (LogRequest_seq example_Marshal
      \<lparr>requests = [zero_RequestLog], requestIdx = Map.empty, logFile = ''{}'' @ [CHR 0x0A]\<rparr>
      example_calls)"
proof -
  have "NewLogger example_Unmarshal (Some (''{}'' @ [CHR 0x0A])) (Data (''{}'' @ [CHR 0x0A]))
      = Some \<lparr>requests = [zero_RequestLog], requestIdx = Map.empty, logFile = ''{}'' @ [CHR 0x0A]\<rparr>"
    by (simp add: NewLogger_Data splitLines_def example_Unmarshal_def List.map_filter_simps)
  from index_consistent_from_start[OF this, of example_Marshal example_calls]
  show ?thesis by simp
qed

text \<open>
  \<open>NewLogger\<close> keeps, in file order, the entry of every line that is not empty and
  parses, and nothing else; \<open>splitLines\<close> gives back the lines of a file in which every
  line ends with a newline.
\<close>

theorem restore_keeps_parseable_lines:
  "map_option GetRequests (NewLogger u (Some file) (Data file))
     = Some (List.map_filter (\<lambda>line. if line = [] then None else u line) (splitLines file))
   \<and> ((\<forall>line \<in> set lines. CHR 0x0A \<notin> set line) \<longrightarrow>
        splitLines (concat (map (\<lambda>line. line @ [CHR 0x0A]) lines)) = lines)"
  by (simp add: NewLogger_Data GetRequests_def splitLines_terminated)

theorem restore_keeps_parseable_lines_witness:
  "map_option GetRequests
     (NewLogger example_Unmarshal (Some (''{}'' @ [CHR 0x0A] @ ''{\"id\": 12'' @ [CHR 0x0A]))
        (Data (''{}'' @ [CHR 0x0A] @ ''{\"id\": 12'' @ [CHR 0x0A])))
     = Some [zero_RequestLog]
   \<and> splitLines (concat (map (\<lambda>line. line @ [CHR 0x0A]) [''{}'', ''{\"id\": 12''])) = [''{}'', ''{\"id\": 12'']"
proof -
  have "\<forall>line \<in> set [''{}'', ''{\"id\": 12'']. CHR 0x0A \<notin> set line"
    by simp
  with restore_keeps_parseable_lines[of example_Unmarshal "''{}'' @ [CHR 0x0A] @ ''{\"id\": 12'' @ [CHR 0x0A]"
      "[''{}'', ''{\"id\": 12'']"]
  show ?thesis
    by (simp add: splitLines_def example_Unmarshal_def List.map_filter_simps)
qed

section \<open>Properties of the certificate authority and of the download\<close>

lemma loadCA_after_create:
  assumes dec: "\<forall>ty bytes. pem_Decode lib (pem_EncodeToMemory lib ty bytes) = Some bytes"
    and key: "\<forall>k. x509_ParsePKCS1PrivateKey lib (x509_MarshalPKCS1PrivateKey lib k) = Some k"
    and paths: "certPath \<noteq> keyPath"
    and created: "createCA lib e fs certPath keyPath = (Inr ca, fs')"
  shows "loadCA lib fs' certPath keyPath = Inr ca \<and> fs' certPath \<noteq> None \<and> fs' keyPath \<noteq> None"
  using created paths
  by (auto simp: createCA_def loadCA_def Let_def dec key split: option.splits if_splits)

text \<open>
  C9. When a call of \<open>LoadOrCreateCA\<close> has returned a configuration, a second call on
  the files it left returns the same configuration, bit-identical \<open>CertPEM\<close> and
  \<open>KeyPEM\<close> included, whatever the randomness offered to it, and leaves the files as
  they are: it reloads the two artifacts, which hold exactly these bytes. The library is
  assumed to decode what it encodes, and the two paths to differ.
\<close>

theorem LoadOrCreateCA_idempotent:
  assumes "\<forall>ty bytes. pem_Decode lib (pem_EncodeToMemory lib ty bytes) = Some bytes"
    and "\<forall>k. x509_ParsePKCS1PrivateKey lib (x509_MarshalPKCS1PrivateKey lib k) = Some k"
    and "filepath_Join logsDir ''ca.crt'' \<noteq> filepath_Join logsDir ''ca.key''"
    and "LoadOrCreateCA filepath_Join lib e1 fs logsDir = (Inr ca1, fs1)"
  shows "\<exists>ca2. LoadOrCreateCA filepath_Join lib e2 fs1 logsDir = (Inr ca2, fs1)
           \<and> CertPEM ca2 = CertPEM ca1 \<and> KeyPEM ca2 = KeyPEM ca1 \<and> ca2 = ca1
           \<and> fs1 (filepath_Join logsDir ''ca.crt'') = Some (CertPEM ca1)
           \<and> fs1 (filepath_Join logsDir ''ca.key'') = Some (KeyPEM ca1)"
proof (cases "fs (filepath_Join logsDir ''ca.crt'') \<noteq> None \<and> fs (filepath_Join logsDir ''ca.key'') \<noteq> None")
  case True
  with assms(4) have l: "loadCA lib fs (filepath_Join logsDir ''ca.crt'') (filepath_Join logsDir ''ca.key'') = Inr ca1"
    and f: "fs1 = fs"
    by (auto simp: LoadOrCreateCA_def Let_def)
  from l have "fs (filepath_Join logsDir ''ca.crt'') = Some (CertPEM ca1)"
    "fs (filepath_Join logsDir ''ca.key'') = Some (KeyPEM ca1)"
    by (auto simp: loadCA_def split: option.splits)
  with True l f show ?thesis
    by (simp add: LoadOrCreateCA_def Let_def)
next
  case False
  with assms(4) have c: "createCA lib e1 fs (filepath_Join logsDir ''ca.crt'') (filepath_Join logsDir ''ca.key'') = (Inr ca1, fs1)"
    by (auto simp: LoadOrCreateCA_def Let_def)
  from loadCA_after_create[OF assms(1,2,3) c]
  have l: "loadCA lib fs1 (filepath_Join logsDir ''ca.crt'') (filepath_Join logsDir ''ca.key'') = Inr ca1"
    and e: "fs1 (filepath_Join logsDir ''ca.crt'') \<noteq> None" "fs1 (filepath_Join logsDir ''ca.key'') \<noteq> None"
    by simp_all
  from l have "fs1 (filepath_Join logsDir ''ca.crt'') = Some (CertPEM ca1)"
    "fs1 (filepath_Join logsDir ''ca.key'') = Some (KeyPEM ca1)"
    by (auto simp: loadCA_def split: option.splits)
  with l e show ?thesis
    by (simp add: LoadOrCreateCA_def Let_def)
qed

theorem LoadOrCreateCA_idempotent_witness:
  "fst (LoadOrCreateCA example_Join example_crypto example_ca_env Map.empty ''/logs'')
     = Inr \<lparr>Cert = ''cert-of-key-1'', Key = ''key-1'',
            CertPEM = ''Pcert-of-key-1'', KeyPEM = ''Pkey-1''\<rparr>
   \<and> LoadOrCreateCA example_Join example_crypto other_ca_env
        (snd (LoadOrCreateCA example_Join example_crypto example_ca_env Map.empty ''/logs'')) ''/logs''
     = LoadOrCreateCA example_Join example_crypto example_ca_env Map.empty ''/logs''"
proof -
  let ?ca = "\<lparr>Cert = ''cert-of-key-1'', Key = ''key-1'',
            CertPEM = ''Pcert-of-key-1'', KeyPEM = ''Pkey-1''\<rparr>"
  let ?fs = "[example_Join ''/logs'' ''ca.crt'' \<mapsto> ''Pcert-of-key-1'',
            example_Join ''/logs'' ''ca.key'' \<mapsto> ''Pkey-1'']"
  have d: "\<forall>ty bytes. pem_Decode example_crypto (pem_EncodeToMemory example_crypto ty bytes) = Some bytes"
    by (simp add: example_crypto_def)
  have k: "\<forall>k. x509_ParsePKCS1PrivateKey example_crypto (x509_MarshalPKCS1PrivateKey example_crypto k) = Some k"
    by (simp add: example_crypto_def)
  have p: "example_Join ''/logs'' ''ca.crt'' \<noteq> example_Join ''/logs'' ''ca.key''"
    by (simp add: example_Join_def)
  have first: "LoadOrCreateCA example_Join example_crypto example_ca_env Map.empty ''/logs'' = (Inr ?ca, ?fs)"
    by (simp add: LoadOrCreateCA_def createCA_def Let_def example_crypto_def example_ca_env_def)
  from LoadOrCreateCA_idempotent[OF d k p first, of other_ca_env] first
  show ?thesis by auto
qed












end
